theory Spec2Isabelle
  imports Main
begin

section \<open>Errors and outcomes\<close>

text \<open>
  The error values of the package (errors.go) and of the Go library calls it makes.
  \<open>APIError\<close> is the struct \<^verbatim>\<open>Error\<close> (Status, Code, Message, Details),
  \<open>ValidationErr\<close> the struct \<^verbatim>\<open>ValidationError\<close> (Status, Code, Message, Fields),
  \<open>Errorf\<close> an error made by \<^verbatim>\<open>fmt.Errorf\<close> without \<^verbatim>\<open>%w\<close>, \<open>WrapError\<close> one made
  with \<^verbatim>\<open>%w\<close>, \<open>NumError\<close> the \<^verbatim>\<open>*strconv.NumError\<close> (Func, Num, Err) and
  \<open>OtherError\<close> any other error type (JSON decoding, user-defined).
  The Go maps Details and Fields are association lists.
\<close>

datatype numErr = ErrSyntax | ErrRange

datatype error =
    APIError int string string "(string \<times> string) list"
  | ValidationErr int string string "(string \<times> string list) list"
  | Errorf string
  | WrapError string error
  | NumError string string numErr
  | OtherError string

text \<open>
  A Go call that returns \<^verbatim>\<open>(value, error)\<close> either returns a value, returns an
  error, or panics (a run-time panic of package reflect).
\<close>

datatype 'a result = Ok 'a | Err error | Panic string

section \<open>Go types and values\<close>

text \<open>
  The types a request field can have, as package reflect sees them. Only predeclared
  (unnamed) basic types are modelled; \<open>TOther\<close> stands for every kind the package
  does not convert (maps, arrays, channels, functions, complex numbers). A struct
  type has the name of its declaration (the empty string for a struct type without a
  name) and its fields in the order of the declaration: the name of the field, whether
  the field is embedded, and its type. Two struct types are the same type when they
  agree on all of this.
\<close>

datatype gotype =
    TString
  | TInt | TInt8 | TInt16 | TInt32 | TInt64
  | TUint | TUint8 | TUint16 | TUint32 | TUint64
  | TFloat32 | TFloat64
  | TBool
  | TSlice gotype
  | TPtr gotype
  | TStruct string "(string \<times> bool \<times> gotype) list"
  | TInterface
  | TOther string

text \<open>
  Values held in an \<^verbatim>\<open>interface{}\<close>. \<open>VNil\<close> is the nil interface. Numbers carry
  their dynamic type; \<open>'f\<close> is the representation of floating-point numbers, which is left
  open. \<open>VStruct\<close> carries the name of its struct type and its fields in the order
  of the declaration (name, whether the field is embedded, value), a pointer carries the
  type it points to,
  \<open>VIface\<close> is the content of a field or element whose static type is an interface.
\<close>

datatype 'f val =
    VNil
  | VString string
  | VInt gotype int
  | VUint gotype nat
  | VFloat gotype 'f
  | VBool bool
  | VSlice gotype "'f val list"
  | VPtr gotype "'f val option"
  | VStruct string "(string \<times> bool \<times> 'f val) list"
  | VIface "'f val"
  | VOther string

fun typeOf :: "'f val \<Rightarrow> gotype" where
  "typeOf VNil = TInterface"
| "typeOf (VString s) = TString"
| "typeOf (VInt t i) = t"
| "typeOf (VUint t n) = t"
| "typeOf (VFloat t x) = t"
| "typeOf (VBool b) = TBool"
| "typeOf (VSlice t vs) = TSlice t"
| "typeOf (VPtr t p) = TPtr t"
| "typeOf (VStruct n fs) = TStruct n (map (\<lambda>(fn, e, v). (fn, e, typeOf v)) fs)"
| "typeOf (VIface v) = TInterface"
| "typeOf (VOther n) = TOther n"

text \<open>\<^verbatim>\<open>reflect.Zero(t)\<close>: the zero value of a type (a nil slice is the empty slice).\<close>

fun zeroValue :: "gotype \<Rightarrow> ('f::zero) val" where
  "zeroValue TString = VString []"
| "zeroValue TBool = VBool False"
| "zeroValue TFloat32 = VFloat TFloat32 0"
| "zeroValue TFloat64 = VFloat TFloat64 0"
| "zeroValue (TSlice t) = VSlice t []"
| "zeroValue (TPtr t) = VPtr t None"
| "zeroValue (TStruct n fs) = VStruct n (map (\<lambda>(fn, e, t). (fn, e, zeroValue t)) fs)"
| "zeroValue TInterface = VIface VNil"
| "zeroValue (TOther n) = VOther n"
| "zeroValue TUint = VUint TUint 0"
| "zeroValue TUint8 = VUint TUint8 0"
| "zeroValue TUint16 = VUint TUint16 0"
| "zeroValue TUint32 = VUint TUint32 0"
| "zeroValue TUint64 = VUint TUint64 0"
| "zeroValue t = VInt t 0"

text \<open>
  \<^verbatim>\<open>Value.Interface()\<close>: the content of a value as an \<^verbatim>\<open>interface{}\<close>; a value of
  interface kind yields what it holds.
\<close>

fun Interface :: "'f val \<Rightarrow> 'f val" where
  "Interface (VIface v) = v"
| "Interface v = v"

section \<open>Library functions the package calls\<close>

subsection \<open>Package strings\<close>

text \<open>\<^verbatim>\<open>strings.Split(s, sep)\<close> for a separator of one byte.\<close>

fun Split :: "string \<Rightarrow> char \<Rightarrow> string list" where
  "Split [] c = [[]]"
| "Split (x # xs) c =
     (if x = c then [] # Split xs c
      else (case Split xs c of [] \<Rightarrow> [[x]] | y # ys \<Rightarrow> (x # y) # ys))"

text \<open>
  The UTF-8 encodings of the code points that \<^verbatim>\<open>unicode.IsSpace\<close> accepts (the
  Unicode White Space property), which \<^verbatim>\<open>strings.TrimSpace\<close> removes from both
  ends of a string. A byte sequence that is not the encoding of a code point decodes to
  \<^verbatim>\<open>utf8.RuneError\<close>, which is no space, so that the runes removed at either end are
  exactly the encodings of this list: at the left end as prefixes, at the right end as
  suffixes.
\<close>

definition spaces :: "string list" where
  "spaces =
     [[CHR 0x09], [CHR 0x0A], [CHR 0x0B], [CHR 0x0C], [CHR 0x0D], [CHR 0x20],
      [CHR 0xC2, CHR 0x85], [CHR 0xC2, CHR 0xA0],
      [CHR 0xE1, CHR 0x9A, CHR 0x80],
      [CHR 0xE2, CHR 0x80, CHR 0x80], [CHR 0xE2, CHR 0x80, CHR 0x81],
      [CHR 0xE2, CHR 0x80, CHR 0x82], [CHR 0xE2, CHR 0x80, CHR 0x83],
      [CHR 0xE2, CHR 0x80, CHR 0x84], [CHR 0xE2, CHR 0x80, CHR 0x85],
      [CHR 0xE2, CHR 0x80, CHR 0x86], [CHR 0xE2, CHR 0x80, CHR 0x87],
      [CHR 0xE2, CHR 0x80, CHR 0x88], [CHR 0xE2, CHR 0x80, CHR 0x89],
      [CHR 0xE2, CHR 0x80, CHR 0x8A],
      [CHR 0xE2, CHR 0x80, CHR 0xA8], [CHR 0xE2, CHR 0x80, CHR 0xA9],
      [CHR 0xE2, CHR 0x80, CHR 0xAF], [CHR 0xE2, CHR 0x81, CHR 0x9F],
      [CHR 0xE3, CHR 0x80, CHR 0x80]]"

fun stripPrefix :: "string list \<Rightarrow> string \<Rightarrow> string option" where
  "stripPrefix [] s = None"
| "stripPrefix (p # ps) s =
     (if take (length p) s = p then Some (drop (length p) s) else stripPrefix ps s)"

text \<open>
  \<open>trimLeft ps n s\<close> removes from the left end of \<open>s\<close> at most \<open>n\<close> of the byte
  sequences \<open>ps\<close>. \<^verbatim>\<open>TrimSpace\<close> trims the left end, and the right end on the reversed
  string, against the reversed encodings.
\<close>

fun trimLeft :: "string list \<Rightarrow> nat \<Rightarrow> string \<Rightarrow> string" where
  "trimLeft ps 0 s = s"
| "trimLeft ps (Suc n) s =
     (case stripPrefix ps s of None \<Rightarrow> s | Some s' \<Rightarrow> trimLeft ps n s')"

definition TrimSpace :: "string \<Rightarrow> string" where
  "TrimSpace s =
     (let l = trimLeft spaces (length s) s
      in rev (trimLeft (map rev spaces) (length l) (rev l)))"

text \<open>The bytes of ASCII, and the lower-case letter of an ASCII letter.\<close>

definition isASCII :: "string \<Rightarrow> bool" where
  "isASCII s = list_all (\<lambda>c. (of_char c :: nat) < 128) s"

definition lowerASCII :: "char \<Rightarrow> char" where
  "lowerASCII c =
     (case map_of (zip ''ABCDEFGHIJKLMNOPQRSTUVWXYZ'' ''abcdefghijklmnopqrstuvwxyz'') c of
        Some l \<Rightarrow> l
      | None \<Rightarrow> c)"

subsection \<open>Package strconv\<close>

definition isDigit :: "char \<Rightarrow> bool" where
  "isDigit c = (48 \<le> (of_char c :: nat) \<and> (of_char c :: nat) \<le> 57)"

text \<open>
  The digit loop of \<^verbatim>\<open>strconv.ParseUint\<close> in base 10: a byte that is no digit is a
  syntax error, a value beyond \<open>maxVal\<close> (or beyond 64 bits) a range error, whichever
  comes first.
\<close>

fun scanUint :: "nat \<Rightarrow> nat \<Rightarrow> string \<Rightarrow> numErr + nat" where
  "scanUint maxVal n [] = Inr n"
| "scanUint maxVal n (c # cs) =
     (if \<not> isDigit c then Inl ErrSyntax
      else if n \<ge> (2 ^ 64 - 1) div 10 + 1 then Inl ErrRange
      else (let n1 = n * 10 + ((of_char c :: nat) - 48)
            in if n1 \<ge> 2 ^ 64 \<or> n1 > maxVal then Inl ErrRange
               else scanUint maxVal n1 cs))"

definition ParseUint :: "string \<Rightarrow> nat \<Rightarrow> error + nat" where
  "ParseUint s bitSize =
     (if s = [] then Inl (NumError ''ParseUint'' s ErrSyntax)
      else (case scanUint (2 ^ bitSize - 1) 0 s of
              Inl e \<Rightarrow> Inl (NumError ''ParseUint'' s e)
            | Inr n \<Rightarrow> Inr n))"

definition ParseInt :: "string \<Rightarrow> nat \<Rightarrow> error + int" where
  "ParseInt s0 bitSize =
     (if s0 = [] then Inl (NumError ''ParseInt'' s0 ErrSyntax)
      else (let neg = (hd s0 = CHR ''-'');
                s = (if hd s0 = CHR ''+'' \<or> hd s0 = CHR ''-'' then tl s0 else s0)
            in if s = [] then Inl (NumError ''ParseInt'' s0 ErrSyntax)
               else (case scanUint (2 ^ bitSize - 1) 0 s of
                       Inl ErrSyntax \<Rightarrow> Inl (NumError ''ParseInt'' s0 ErrSyntax)
                     | Inl ErrRange \<Rightarrow> Inl (NumError ''ParseInt'' s0 ErrRange)
                     | Inr un \<Rightarrow>
                         if \<not> neg \<and> un \<ge> 2 ^ (bitSize - 1)
                           then Inl (NumError ''ParseInt'' s0 ErrRange)
                         else if neg \<and> un > 2 ^ (bitSize - 1)
                           then Inl (NumError ''ParseInt'' s0 ErrRange)
                         else Inr (if neg then - int un else int un))))"

definition ParseBool :: "string \<Rightarrow> error + bool" where
  "ParseBool str =
     (if str \<in> set [''1'', ''t'', ''T'', ''TRUE'', ''true'', ''True''] then Inr True
      else if str \<in> set [''0'', ''f'', ''F'', ''FALSE'', ''false'', ''False''] then Inr False
      else Inl (NumError ''ParseBool'' str ErrSyntax))"

subsection \<open>What is left open\<close>

text \<open>
  The library functions whose result the model does not compute are parameters:
  floating-point parsing (which fails with a \<^verbatim>\<open>*NumError\<close> like the other parsers),
  the printing of a type, the conversion rules of package
  reflect, package encoding/json and the validator library. \<open>'j\<close> is the type of a
  decoded JSON value. What depends on the Unicode tables is a parameter as well:
  \<open>EqualFoldUnicode\<close> is \<^verbatim>\<open>strings.EqualFold\<close> on two strings of which one has a byte
  outside ASCII, and \<open>IsExportedUnicode\<close> tells whether a name that starts with a byte
  outside ASCII starts with an upper-case letter (\<^verbatim>\<open>unicode.IsUpper\<close> of its first rune).
\<close>

datatype validatorResult =
    Valid
  | ValidationErrors "(string \<times> string) list"
  | InvalidValidation error

record ('f, 'j) golib =
  ParseFloat :: "string \<Rightarrow> nat \<Rightarrow> numErr + 'f"
  typeString :: "gotype \<Rightarrow> string"
  ConvertibleTo :: "gotype \<Rightarrow> gotype \<Rightarrow> bool"
  Convert :: "'f val \<Rightarrow> gotype \<Rightarrow> 'f val"
  jsonUnmarshalMap :: "string \<Rightarrow> error + (string \<times> 'j) list"
  jsonMarshal :: "'j \<Rightarrow> error + string"
  jsonUnmarshal :: "string \<Rightarrow> gotype \<Rightarrow> error + 'f val"
  validatorStruct :: "(string \<times> gotype) list \<Rightarrow> 'f val list \<Rightarrow> validatorResult"
  EqualFoldUnicode :: "string \<Rightarrow> string \<Rightarrow> bool"
  IsExportedUnicode :: "string \<Rightarrow> bool"

text \<open>
  \<^verbatim>\<open>strings.EqualFold\<close>: two strings of ASCII bytes are equal under case folding when
  they have the same length and agree byte by byte up to the case of the letters.
\<close>

definition EqualFold :: "('f, 'j) golib \<Rightarrow> string \<Rightarrow> string \<Rightarrow> bool" where
  "EqualFold lib s t =
     (if isASCII s \<and> isASCII t then map lowerASCII s = map lowerASCII t
      else EqualFoldUnicode lib s t)"

text \<open>
  A name is exported when its first rune is an upper-case letter; for a first byte of
  ASCII that is one of the letters A to Z. (No field has the empty name.)
\<close>

definition isExported :: "('f, 'j) golib \<Rightarrow> string \<Rightarrow> bool" where
  "isExported lib n =
     (case n of
        [] \<Rightarrow> False
      | c # cs \<Rightarrow>
          if (of_char c :: nat) < 128 then 65 \<le> (of_char c :: nat) \<and> (of_char c :: nat) \<le> 90
          else IsExportedUnicode lib n)"

section \<open>Field extractors\<close>

text \<open>\<^verbatim>\<open>Type.Bits()\<close> of the numeric kinds, on a 64-bit platform.\<close>

fun Bits :: "gotype \<Rightarrow> nat" where
  "Bits TInt = 64" | "Bits TInt8 = 8" | "Bits TInt16 = 16" | "Bits TInt32 = 32"
| "Bits TInt64 = 64"
| "Bits TUint = 64" | "Bits TUint8 = 8" | "Bits TUint16 = 16" | "Bits TUint32 = 32"
| "Bits TUint64 = 64"
| "Bits TFloat32 = 32" | "Bits TFloat64 = 64"
| "Bits t = 0"

text \<open>
  The loop of the slice case of \<^verbatim>\<open>convertValue\<close>: \<open>cv\<close> converts one part;
  \<^verbatim>\<open>slice.Index(i).Set(reflect.ValueOf(elem))\<close> panics unless the dynamic type of the
  element is the element type of the slice.
\<close>

fun convertElems ::
  "(string \<Rightarrow> 'f val result) \<Rightarrow> gotype \<Rightarrow> string list \<Rightarrow> 'f val list result" where
  "convertElems cv elemType [] = Ok []"
| "convertElems cv elemType (part # parts) =
     (case cv (TrimSpace part) of
        Err e \<Rightarrow> Err e
      | Panic m \<Rightarrow> Panic m
      | Ok elem \<Rightarrow>
          if typeOf elem \<noteq> elemType then Panic ''reflect.Set: value is not assignable''
          else (case convertElems cv elemType parts of
                  Ok vs \<Rightarrow> Ok (elem # vs)
                | Err e \<Rightarrow> Err e
                | Panic m \<Rightarrow> Panic m))"

fun ofSum :: "error + 'a \<Rightarrow> ('a \<Rightarrow> 'b) \<Rightarrow> 'b result" where
  "ofSum (Inl e) f = Err e"
| "ofSum (Inr x) f = Ok (f x)"

fun convertValue :: "('f, 'j) golib \<Rightarrow> string \<Rightarrow> gotype \<Rightarrow> 'f val result" where
  "convertValue lib v TString = Ok (VString v)"
| "convertValue lib v TInt = ofSum (ParseInt v (Bits TInt)) (VInt TInt64)"
| "convertValue lib v TInt8 = ofSum (ParseInt v (Bits TInt8)) (VInt TInt64)"
| "convertValue lib v TInt16 = ofSum (ParseInt v (Bits TInt16)) (VInt TInt64)"
| "convertValue lib v TInt32 = ofSum (ParseInt v (Bits TInt32)) (VInt TInt64)"
| "convertValue lib v TInt64 = ofSum (ParseInt v (Bits TInt64)) (VInt TInt64)"
| "convertValue lib v TUint = ofSum (ParseUint v (Bits TUint)) (VUint TUint64)"
| "convertValue lib v TUint8 = ofSum (ParseUint v (Bits TUint8)) (VUint TUint64)"
| "convertValue lib v TUint16 = ofSum (ParseUint v (Bits TUint16)) (VUint TUint64)"
| "convertValue lib v TUint32 = ofSum (ParseUint v (Bits TUint32)) (VUint TUint64)"
| "convertValue lib v TUint64 = ofSum (ParseUint v (Bits TUint64)) (VUint TUint64)"
| "convertValue lib v TFloat32 =
     (case ParseFloat lib v (Bits TFloat32) of
        Inl e \<Rightarrow> Err (NumError ''ParseFloat'' v e)
      | Inr x \<Rightarrow> Ok (VFloat TFloat64 x))"
| "convertValue lib v TFloat64 =
     (case ParseFloat lib v (Bits TFloat64) of
        Inl e \<Rightarrow> Err (NumError ''ParseFloat'' v e)
      | Inr x \<Rightarrow> Ok (VFloat TFloat64 x))"
| "convertValue lib v TBool = ofSum (ParseBool v) VBool"
| "convertValue lib v (TSlice elemType) =
     (case convertElems (\<lambda>part. convertValue lib part elemType) elemType (Split v (CHR '',''))
      of Ok vs \<Rightarrow> Ok (VSlice elemType vs)
       | Err e \<Rightarrow> Err e
       | Panic m \<Rightarrow> Panic m)"
| "convertValue lib v targetType =
     Err (Errorf (''unsupported type: '' @ typeString lib targetType))"

text \<open>
  What an extractor reads of the \<^verbatim>\<open>*http.Request\<close>: the query values
  (\<^verbatim>\<open>r.URL.Query()\<close>), the header values (keyed as \<^verbatim>\<open>Header.Get\<close> looks them up) and
  the body (nil, a read error, or the bytes). \<^verbatim>\<open>Get\<close> returns the first value of a
  key, or the empty string.
\<close>

record request =
  Query :: "string \<rightharpoonup> string list"
  Header :: "string \<rightharpoonup> string list"
  Body :: "(error + string) option"

definition Get :: "(string \<rightharpoonup> string list) \<Rightarrow> string \<Rightarrow> string" where
  "Get m key = (case m key of None \<Rightarrow> [] | Some [] \<Rightarrow> [] | Some (v # vs) \<Rightarrow> v)"

datatype extractor =
    PathExtractor string gotype
  | QueryExtractor string gotype
  | HeaderExtractor string gotype
  | JSONExtractor string gotype
  | DependencyExtractor string "string list" gotype

fun Extract ::
  "('f::zero, 'j) golib \<Rightarrow> extractor \<Rightarrow> request \<Rightarrow> (string \<rightharpoonup> string) \<Rightarrow> string
     \<Rightarrow> 'f val result" where
  "Extract lib (PathExtractor paramName fieldType) r vars body =
     (case vars paramName of
        None \<Rightarrow> Err (Errorf (''path parameter '' @ paramName @ '' not found''))
      | Some v \<Rightarrow> convertValue lib v fieldType)"
| "Extract lib (QueryExtractor paramName fieldType) r vars body =
     (let v = Get (Query r) paramName
      in if v = [] \<and> fieldType \<noteq> TBool then Ok (Interface (zeroValue fieldType))
         else convertValue lib v fieldType)"
| "Extract lib (HeaderExtractor headerName fieldType) r vars body =
     (let v = Get (Header r) headerName
      in if v = [] then Ok (Interface (zeroValue fieldType))
         else convertValue lib v fieldType)"
| "Extract lib (JSONExtractor jsonPath fieldType) r vars body =
     (if body = [] then Ok (Interface (zeroValue fieldType))
      else (case jsonUnmarshalMap lib body of
              Inl err \<Rightarrow> ofSum (jsonUnmarshal lib body fieldType) (\<lambda>v. v)
            | Inr data \<Rightarrow>
                (case map_of data jsonPath of
                   None \<Rightarrow> Ok (Interface (zeroValue fieldType))
                 | Some v \<Rightarrow>
                     (case jsonMarshal lib v of
                        Inl err \<Rightarrow> Err err
                      | Inr jsonBytes \<Rightarrow> ofSum (jsonUnmarshal lib jsonBytes fieldType) (\<lambda>v. v)))))"
| "Extract lib (DependencyExtractor depName fieldPath fieldType) r vars body = Ok VNil"

section \<open>Compiling a request type\<close>

text \<open>
  A field of a struct type as \<^verbatim>\<open>reflect.StructField\<close> gives it; \<^verbatim>\<open>Tag.Get\<close> returns the
  empty string for a key the tag does not have.
\<close>

record structField =
  Name :: string
  PkgPath :: string
  Type :: gotype
  Tag :: "(string \<times> string) list"

definition TagGet :: "structField \<Rightarrow> string \<Rightarrow> string" where
  "TagGet field key = (case map_of (Tag field) key of None \<Rightarrow> [] | Some v \<Rightarrow> v)"

definition fieldExtractor :: "structField \<Rightarrow> extractor option" where
  "fieldExtractor field =
     (if TagGet field ''path'' \<noteq> [] then Some (PathExtractor (TagGet field ''path'') (Type field))
      else if TagGet field ''query'' \<noteq> []
        then Some (QueryExtractor (TagGet field ''query'') (Type field))
      else if TagGet field ''header'' \<noteq> []
        then Some (HeaderExtractor (TagGet field ''header'') (Type field))
      else if TagGet field ''json'' \<noteq> [] \<and> TagGet field ''json'' \<noteq> ''-''
        then Some (JSONExtractor (hd (Split (TagGet field ''json'') (CHR '',''))) (Type field))
      else if TagGet field ''dep'' \<noteq> []
        then (let parts = Split (TagGet field ''dep'') (CHR ''.'')
              in Some (DependencyExtractor (hd parts) parts (Type field)))
      else None)"

text \<open>
  \<^verbatim>\<open>compileStructExtractors\<close> fills two Go maps keyed by the field index; they are
  association lists here, in the order the loop inserts the keys. It never returns an
  error.
\<close>

fun compileFields ::
  "nat \<Rightarrow> structField list \<Rightarrow> (nat \<times> extractor) list \<times> (nat \<times> string) list" where
  "compileFields i [] = ([], [])"
| "compileFields i (field # rest) =
     (let (extractors, validators) = compileFields (Suc i) rest
      in if PkgPath field \<noteq> [] then (extractors, validators)
         else ((case fieldExtractor field of None \<Rightarrow> [] | Some e \<Rightarrow> [(i, e)]) @ extractors,
               (if TagGet field ''validate'' \<noteq> [] then [(i, TagGet field ''validate'')] else [])
                 @ validators))"

definition compileStructExtractors ::
  "structField list \<Rightarrow> (nat \<times> extractor) list \<times> (nat \<times> string) list" where
  "compileStructExtractors structType = compileFields 0 structType"

section \<open>validator.go\<close>

definition NewValidationError :: "(string \<times> string list) list \<Rightarrow> error" where
  "NewValidationError fs = ValidationErr 400 ''VALIDATION_ERROR'' ''Validation failed'' fs"

text \<open>\<^verbatim>\<open>fields[k] = append(fields[k], msg)\<close> on a map kept as an association list.\<close>

fun appendField ::
  "(string \<times> string list) list \<Rightarrow> string \<Rightarrow> string \<Rightarrow> (string \<times> string list) list" where
  "appendField [] k msg = [(k, [msg])]"
| "appendField ((k', msgs) # rest) k msg =
     (if k' = k then (k', msgs @ [msg]) # rest else (k', msgs) # appendField rest k msg)"

definition validateStruct ::
  "('f, 'j) golib \<Rightarrow> structField list \<Rightarrow> 'f val list \<Rightarrow> error option" where
  "validateStruct lib reqType obj =
     (case validatorStruct lib (map (\<lambda>f. (Name f, Type f)) reqType) obj of
        Valid \<Rightarrow> None
      | ValidationErrors validationErrors \<Rightarrow>
          Some (NewValidationError
                  (foldl (\<lambda>acc (field, tag).
                            appendField acc field (''failed '' @ tag @ '' validation''))
                     [] validationErrors))
      | InvalidValidation err \<Rightarrow> Some err)"

section \<open>dependency.go\<close>

subsection \<open>Package reflect: the fields of a struct\<close>

text \<open>The fields of a struct type, and the first position of a list at which a test holds.\<close>

fun fieldsOf :: "gotype \<Rightarrow> (string \<times> bool \<times> gotype) list" where
  "fieldsOf (TStruct n fs) = fs"
| "fieldsOf t = []"

fun firstIndex :: "('a \<Rightarrow> bool) \<Rightarrow> 'a list \<Rightarrow> nat option" where
  "firstIndex P [] = None"
| "firstIndex P (x # xs) = (if P x then Some 0 else map_option Suc (firstIndex P xs))"

text \<open>
  \<^verbatim>\<open>Type.FieldByNameFunc\<close> searches the struct and the structs embedded in it breadth
  first, one level of embedding at a time. The state of the search within one level:
  the index sequence of the match (\<^verbatim>\<open>result.Index\<close>, present when \<^verbatim>\<open>ok\<close>), the
  number of times an embedded struct type has been met (\<^verbatim>\<open>nextCount\<close>, Go's map with 0
  for an absent key), and the work list of the next level (\<^verbatim>\<open>next\<close>: a struct type and
  the index sequence that leads to it).
\<close>

record fieldSearch =
  found :: "nat list option"
  nextCount :: "gotype \<Rightarrow> nat"
  nextScan :: "(gotype \<times> nat list) list"

text \<open>The type \<^verbatim>\<open>ntyp\<close> of an embedded field: \<^verbatim>\<open>T\<close> for a field of type \<^verbatim>\<open>T\<close> or \<^verbatim>\<open>*T\<close>.\<close>

fun embeddedType :: "bool \<Rightarrow> gotype \<Rightarrow> gotype option" where
  "embeddedType False t = None"
| "embeddedType True (TPtr t) = Some t"
| "embeddedType True t = Some t"

text \<open>
  The body of the loop over the fields of one struct type \<open>t\<close> of the current level;
  \<open>multiple\<close> is \<^verbatim>\<open>count[t] > 1\<close> and \<open>index\<close> is \<^verbatim>\<open>scan.index\<close>. A second match on
  the level, or a match in a type that the level reaches more than once, ends the whole
  search without a result (\<open>None\<close>). A field that does not match is queued for the next
  level when it is an embedded struct, no match has been seen, and its type is not
  queued yet.
\<close>

fun scanField ::
  "(string \<Rightarrow> bool) \<Rightarrow> bool \<Rightarrow> nat list \<Rightarrow> nat \<Rightarrow> string \<times> bool \<times> gotype \<Rightarrow> fieldSearch
     \<Rightarrow> fieldSearch option" where
  "scanField match multiple index i (fname, embedded, ftyp) st =
     (if match fname then
        (if multiple \<or> found st \<noteq> None then None
         else Some (st\<lparr>found := Some (index @ [i])\<rparr>))
      else
        (case embeddedType embedded ftyp of
           Some (TStruct n fs) \<Rightarrow>
             if found st \<noteq> None then Some st
             else if nextCount st (TStruct n fs) > 0
               then Some (st\<lparr>nextCount := (nextCount st)(TStruct n fs := 2)\<rparr>)
             else Some (st\<lparr>nextCount := (nextCount st)(TStruct n fs := if multiple then 2 else 1),
                          nextScan := nextScan st @ [(TStruct n fs, index @ [i])]\<rparr>)
         | _ \<Rightarrow> Some st))"

fun scanFields ::
  "(string \<Rightarrow> bool) \<Rightarrow> bool \<Rightarrow> nat list \<Rightarrow> nat \<Rightarrow> (string \<times> bool \<times> gotype) list \<Rightarrow> fieldSearch
     \<Rightarrow> fieldSearch option" where
  "scanFields match multiple index i [] st = Some st"
| "scanFields match multiple index i (f # fs) st =
     (case scanField match multiple index i f st of
        None \<Rightarrow> None
      | Some st' \<Rightarrow> scanFields match multiple index (Suc i) fs st')"

text \<open>
  The loop over the work list \<^verbatim>\<open>current\<close> of one level. A struct type that has been
  visited, on this level or a higher one, is skipped.
\<close>

fun scanLevel ::
  "(string \<Rightarrow> bool) \<Rightarrow> (gotype \<Rightarrow> nat) \<Rightarrow> (gotype \<times> nat list) list \<Rightarrow> gotype list \<Rightarrow> fieldSearch
     \<Rightarrow> (gotype list \<times> fieldSearch) option" where
  "scanLevel match count [] visited st = Some (visited, st)"
| "scanLevel match count ((t, index) # current) visited st =
     (if t \<in> set visited then scanLevel match count current visited st
      else (case scanFields match (count t > 1) index 0 (fieldsOf t) st of
              None \<Rightarrow> None
            | Some st' \<Rightarrow> scanLevel match count current (t # visited) st'))"

text \<open>
  The loop over the levels, which ends when the work list is empty or a level has found
  the field. It terminates because the types of a work list are embedded in those of the
  list before; \<open>weight\<close> is the measure that decreases.
\<close>

definition weight :: "(gotype \<times> nat list) list \<Rightarrow> nat" where
  "weight q = sum_list (map (\<lambda>(t, i). Suc (size t)) q)"

function searchLevels ::
  "(string \<Rightarrow> bool) \<Rightarrow> (gotype \<times> nat list) list \<Rightarrow> (gotype \<Rightarrow> nat) \<Rightarrow> gotype list
     \<Rightarrow> nat list option" where
  "searchLevels match next count visited =
     (if next = [] then None
      else (case scanLevel match count next visited
                   \<lparr>found = None, nextCount = (\<lambda>t. 0), nextScan = []\<rparr> of
              None \<Rightarrow> None
            | Some (visited', st) \<Rightarrow>
                (case found st of
                   Some index \<Rightarrow> Some index
                 | None \<Rightarrow> searchLevels match (nextScan st) (nextCount st) visited')))"
  by pat_completeness auto

definition FieldByNameFunc :: "gotype \<Rightarrow> (string \<Rightarrow> bool) \<Rightarrow> nat list option" where
  "FieldByNameFunc t match = searchLevels match [(t, [])] (\<lambda>t. 0) []"

text \<open>
  \<^verbatim>\<open>Type.FieldByName\<close>: the index sequence of the field. A field of the struct itself
  with the name is found at once; the embedded structs are searched only when there is
  none and the name is not empty.
\<close>

definition FieldByName :: "gotype \<Rightarrow> string \<Rightarrow> nat list option" where
  "FieldByName t name =
     (if name = [] then None
      else (case firstIndex (\<lambda>(fname, embedded, ftyp). fname = name) (fieldsOf t) of
              Some i \<Rightarrow> Some [i]
            | None \<Rightarrow>
                if list_ex (\<lambda>(fname, embedded, ftyp). embedded) (fieldsOf t)
                  then FieldByNameFunc t (\<lambda>s. s = name)
                else None))"

text \<open>
  A \<^verbatim>\<open>reflect.Value\<close>: the value and the two flags that make it read-only,
  \<^verbatim>\<open>flagStickyRO\<close> (reached through an unexported field that is not embedded) and
  \<^verbatim>\<open>flagEmbedRO\<close> (reached through an unexported embedded field).
  \<^verbatim>\<open>Value.Field(i)\<close> inherits the first flag and clears the second; it panics on a value
  that is no struct (with a message that names the kind of the value) and on an index
  out of range. \<open>Inl\<close> is a panic.
\<close>

type_synonym 'f Value = "'f val \<times> bool \<times> bool"

fun Field :: "('f, 'j) golib \<Rightarrow> 'f Value \<Rightarrow> nat \<Rightarrow> string + 'f Value" where
  "Field lib (VStruct n fs, stickyRO, embedRO) i =
     (if i < length fs then
        (case fs ! i of
           (fname, embedded, x) \<Rightarrow>
             Inr (x, stickyRO \<or> (\<not> isExported lib fname \<and> \<not> embedded),
                     \<not> isExported lib fname \<and> embedded))
      else Inl ''reflect: Field index out of range'')"
| "Field lib (v, stickyRO, embedRO) i = Inl ''reflect: call of reflect.Value.Field on a Value that is no struct''"

text \<open>
  \<^verbatim>\<open>Value.FieldByIndex\<close>: after the first index, a pointer to a struct is followed, and
  a nil pointer there is a panic. \<^verbatim>\<open>Value.Elem\<close> keeps both flags.
\<close>

definition embeddedElem :: "'f Value \<Rightarrow> string + 'f Value" where
  "embeddedElem sv =
     (case sv of
        (VPtr (TStruct n fs) None, stickyRO, embedRO) \<Rightarrow>
          Inl ''reflect: indirection through nil pointer to embedded struct''
      | (VPtr (TStruct n fs) (Some v), stickyRO, embedRO) \<Rightarrow> Inr (v, stickyRO, embedRO)
      | _ \<Rightarrow> Inr sv)"

fun FieldByIndex :: "('f, 'j) golib \<Rightarrow> 'f Value \<Rightarrow> bool \<Rightarrow> nat list \<Rightarrow> string + 'f Value" where
  "FieldByIndex lib sv first [] = Inr sv"
| "FieldByIndex lib sv first (x # index) =
     (case (if first then Inr sv else embeddedElem sv) of
        Inl m \<Rightarrow> Inl m
      | Inr sv' \<Rightarrow>
          (case Field lib sv' x of
             Inl m \<Rightarrow> Inl m
           | Inr fv \<Rightarrow> FieldByIndex lib fv False index))"

text \<open>\<^verbatim>\<open>Value.FieldByName\<close>; \<open>None\<close> is the invalid \<^verbatim>\<open>Value\<close> of a field that is not found.\<close>

definition ValueFieldByName ::
  "('f, 'j) golib \<Rightarrow> 'f Value \<Rightarrow> string \<Rightarrow> (string + 'f Value) option" where
  "ValueFieldByName lib sv name =
     (case FieldByName (typeOf (fst sv)) name of
        None \<Rightarrow> None
      | Some index \<Rightarrow> Some (FieldByIndex lib sv True index))"

subsection \<open>extractNestedField\<close>

text \<open>
  The inner loop over pointers: \<open>None\<close> when a nil pointer is met, the value pointed to
  otherwise.
\<close>

fun derefPtr :: "'f val \<Rightarrow> 'f val option" where
  "derefPtr (VPtr t None) = None"
| "derefPtr (VPtr t (Some v)) = derefPtr v"
| "derefPtr v = Some v"

text \<open>
  The case-insensitive search of the loop body, over the fields of the struct itself:
  the first field whose name is equal to the segment under case folding.
\<close>

definition foldField ::
  "('f, 'j) golib \<Rightarrow> 'f Value \<Rightarrow> string \<Rightarrow> (string + 'f Value) option" where
  "foldField lib sv field =
     (case fst sv of
        VStruct n fs \<Rightarrow>
          (case firstIndex (\<lambda>(fname, embedded, x). EqualFold lib fname field) fs of
             None \<Rightarrow> None
           | Some i \<Rightarrow> Some (Field lib sv i))
      | _ \<Rightarrow> None)"

text \<open>
  The loop over the path, on a \<^verbatim>\<open>reflect.Value\<close>. At the end of the path,
  \<^verbatim>\<open>Interface()\<close> panics on a read-only value.
\<close>

fun navigate :: "('f, 'j) golib \<Rightarrow> 'f Value \<Rightarrow> string list \<Rightarrow> 'f val result" where
  "navigate lib (v, stickyRO, embedRO) [] =
     (if stickyRO \<or> embedRO
        then Panic ''reflect.Value.Interface: cannot return value obtained from unexported field or method''
      else Ok (Interface v))"
| "navigate lib (v, stickyRO, embedRO) (field # path) =
     (case derefPtr v of
        None \<Rightarrow> Ok VNil
      | Some (VStruct n fs) \<Rightarrow>
          (case (case ValueFieldByName lib (VStruct n fs, stickyRO, embedRO) field of
                   Some fieldValue \<Rightarrow> Some fieldValue
                 | None \<Rightarrow> foldField lib (VStruct n fs, stickyRO, embedRO) field) of
             None \<Rightarrow> Ok VNil
           | Some (Inl m) \<Rightarrow> Panic m
           | Some (Inr fieldValue) \<Rightarrow> navigate lib fieldValue path)
      | Some _ \<Rightarrow> Ok VNil)"

definition extractNestedField :: "('f, 'j) golib \<Rightarrow> 'f val \<Rightarrow> string list \<Rightarrow> 'f val result" where
  "extractNestedField lib obj path =
     (if path = [] then Ok obj else navigate lib (obj, False, False) path)"

subsection \<open>Resolve\<close>

text \<open>
  A compiled dependency: the fields of its request type, its extractors (a Go map, here a
  list in the order in which the map is ranged over), its validation tags and its
  \<^verbatim>\<open>Handle\<close> method, which returns a response, returns an error, or panics. The
  fields \<^verbatim>\<open>instance\<close> and \<^verbatim>\<open>respType\<close>, which \<^verbatim>\<open>Resolve\<close> does not read, are left out.
\<close>

record 'f compiledDependency =
  handlerFunc :: "'f val list \<Rightarrow> 'f val result"
  reqType :: "structField list"
  extractors :: "(nat \<times> extractor) list"
  validators :: "(nat \<times> string) list"

record 'f DependencyResolver =
  dependencies :: "string \<rightharpoonup> 'f compiledDependency"

text \<open>
  The state of one inbound request: the \<^verbatim>\<open>ResolvedDependencies\<close> cache (the map
  \<^verbatim>\<open>values\<close>, here \<open>resolvedValues\<close>), and the
  calls made so far to the validator and to the \<^verbatim>\<open>Handle\<close> methods of dependencies,
  each with the name of the dependency and what the call returned.
\<close>

datatype 'f event =
    Validated string "error option"
  | Invoked string "'f val result"

record 'f ResolvedDependencies =
  resolvedValues :: "string \<rightharpoonup> 'f val"
  trace :: "'f event list"

text \<open>\<^verbatim>\<open>reflect.New(reqType).Elem()\<close>: the fields of a zero request struct.\<close>

definition newStruct :: "structField list \<Rightarrow> ('f::zero) val list" where
  "newStruct t = map (\<lambda>f. zeroValue (Type f)) t"

text \<open>
  The value a field slot gets, as both \<^verbatim>\<open>Resolve\<close> and \<^verbatim>\<open>Execute\<close> compute it:
  a dependency slot resolves the dependency through \<open>rslv\<close> and selects the nested
  field when the tag has a path; any other slot calls its extractor. \<open>None\<close> means
  that the resolution does not return.
\<close>

fun slotValue ::
  "(string \<Rightarrow> 'f ResolvedDependencies \<Rightarrow> ('f val result \<times> 'f ResolvedDependencies) option)
     \<Rightarrow> ('f::zero, 'j) golib \<Rightarrow> request \<Rightarrow> (string \<rightharpoonup> string) \<Rightarrow> string \<Rightarrow> extractor
     \<Rightarrow> 'f ResolvedDependencies \<Rightarrow> ('f val result \<times> 'f ResolvedDependencies) option" where
  "slotValue rslv lib r vars body (DependencyExtractor depName fieldPath fieldType) resolved =
     (case rslv depName resolved of
        None \<Rightarrow> None
      | Some (Ok depResult, resolved') \<Rightarrow>
          Some (if length fieldPath > 1 then extractNestedField lib depResult (tl fieldPath)
                else Ok depResult, resolved')
      | Some (Err err, resolved') \<Rightarrow> Some (Err err, resolved')
      | Some (Panic m, resolved') \<Rightarrow> Some (Panic m, resolved'))"
| "slotValue rslv lib r vars body ex resolved = Some (Extract lib ex r vars body, resolved)"

text \<open>
  The end of the loop body of \<^verbatim>\<open>Resolve\<close>: a non-nil value is stored in the field
  when its type is convertible to the type of the field, and dropped otherwise.
\<close>

definition setFieldResolve ::
  "('f, 'j) golib \<Rightarrow> structField list \<Rightarrow> 'f val list \<Rightarrow> nat \<Rightarrow> 'f val \<Rightarrow> 'f val list result" where
  "setFieldResolve lib t reqValue fieldIdx v =
     (if v = VNil then Ok reqValue
      else if fieldIdx \<ge> length reqValue \<or> fieldIdx \<ge> length t
        then Panic ''reflect: Field index out of range''
      else if ConvertibleTo lib (typeOf v) (Type (t ! fieldIdx))
        then Ok (reqValue[fieldIdx := Convert lib v (Type (t ! fieldIdx))])
      else Ok reqValue)"

fun resolveFields ::
  "(string \<Rightarrow> 'f ResolvedDependencies \<Rightarrow> ('f val result \<times> 'f ResolvedDependencies) option)
     \<Rightarrow> ('f::zero, 'j) golib \<Rightarrow> request \<Rightarrow> (string \<rightharpoonup> string) \<Rightarrow> string
     \<Rightarrow> structField list \<Rightarrow> (nat \<times> extractor) list \<Rightarrow> 'f val list
     \<Rightarrow> 'f ResolvedDependencies \<Rightarrow> ('f val list result \<times> 'f ResolvedDependencies) option" where
  "resolveFields rslv lib r vars body t [] reqValue resolved = Some (Ok reqValue, resolved)"
| "resolveFields rslv lib r vars body t ((fieldIdx, ex) # rest) reqValue resolved =
     (case slotValue rslv lib r vars body ex resolved of
        None \<Rightarrow> None
      | Some (Err err, resolved') \<Rightarrow> Some (Err err, resolved')
      | Some (Panic m, resolved') \<Rightarrow> Some (Panic m, resolved')
      | Some (Ok v, resolved') \<Rightarrow>
          (case setFieldResolve lib t reqValue fieldIdx v of
             Ok reqValue' \<Rightarrow> resolveFields rslv lib r vars body t rest reqValue' resolved'
           | Err err \<Rightarrow> Some (Err err, resolved')
           | Panic m \<Rightarrow> Some (Panic m, resolved')))"

definition logEvent :: "'f event \<Rightarrow> 'f ResolvedDependencies \<Rightarrow> 'f ResolvedDependencies" where
  "logEvent ev resolved = resolved\<lparr>trace := trace resolved @ [ev]\<rparr>"

text \<open>
  \<^verbatim>\<open>Resolve\<close> calls itself for the dependencies of a dependency and has no cycle
  detection, so it need not return. The first argument bounds the depth of the
  recursion; \<open>None\<close> means that the bound was too small.
\<close>

primrec Resolve ::
  "nat \<Rightarrow> ('f::zero, 'j) golib \<Rightarrow> 'f DependencyResolver \<Rightarrow> request \<Rightarrow> (string \<rightharpoonup> string)
     \<Rightarrow> string \<Rightarrow> string \<Rightarrow> 'f ResolvedDependencies
     \<Rightarrow> ('f val result \<times> 'f ResolvedDependencies) option" where
  "Resolve 0 lib dr r vars body name resolved = None"
| "Resolve (Suc fuel) lib dr r vars body name resolved =
     (case resolvedValues resolved name of
        Some v \<Rightarrow> Some (Ok v, resolved)
      | None \<Rightarrow>
          (case dependencies dr name of
             None \<Rightarrow> Some (Err (Errorf (''dependency '' @ name @ '' not found'')), resolved)
           | Some dep \<Rightarrow>
               (case resolveFields (Resolve fuel lib dr r vars body) lib r vars body
                       (reqType dep) (extractors dep) (newStruct (reqType dep)) resolved of
                  None \<Rightarrow> None
                | Some (Err err, resolved') \<Rightarrow> Some (Err err, resolved')
                | Some (Panic m, resolved') \<Rightarrow> Some (Panic m, resolved')
                | Some (Ok reqValue, resolved') \<Rightarrow>
                    (case validateStruct lib (reqType dep) reqValue of
                       Some err \<Rightarrow> Some (Err err, logEvent (Validated name (Some err)) resolved')
                     | None \<Rightarrow>
                         (let resolved2 = logEvent (Validated name None) resolved';
                              res = handlerFunc dep reqValue;
                              resolved3 = logEvent (Invoked name res) resolved2
                          in case res of
                               Err err \<Rightarrow> Some (Err err, resolved3)
                             | Panic m \<Rightarrow> Some (Panic m, resolved3)
                             | Ok v \<Rightarrow>
                                 Some (Ok v, resolved3\<lparr>resolvedValues := (resolvedValues resolved3)(name \<mapsto> v)\<rparr>))))))"

section \<open>handler.go\<close>

text \<open>
  A compiled handler has the fields of a compiled dependency and \<^verbatim>\<open>hasJSONBody\<close>
  (\<^verbatim>\<open>respType\<close> and \<^verbatim>\<open>dependencies\<close>, which \<^verbatim>\<open>Execute\<close> does not read, are left out).
\<close>

record 'f CompiledHandler = "'f compiledDependency" +
  hasJSONBody :: bool

text \<open>
  What \<^verbatim>\<open>Execute\<close> does with the response writer: it hands an error to the error
  handler it was given, or writes the response of the handler with status 200, or
  panics.
\<close>

datatype 'f outcome =
    ErrorHandled error
  | Responded "'f val"
  | Panicked string

text \<open>
  The end of the loop body of \<^verbatim>\<open>Execute\<close>: as in \<^verbatim>\<open>Resolve\<close>, but a value that is
  not convertible is passed to \<^verbatim>\<open>field.Set\<close>, which panics on a value that is not
  assignable.
\<close>

definition setFieldExecute ::
  "('f, 'j) golib \<Rightarrow> structField list \<Rightarrow> 'f val list \<Rightarrow> nat \<Rightarrow> 'f val \<Rightarrow> 'f val list result" where
  "setFieldExecute lib t reqValue fieldIdx v =
     (if v = VNil then Ok reqValue
      else if fieldIdx \<ge> length reqValue \<or> fieldIdx \<ge> length t
        then Panic ''reflect: Field index out of range''
      else if ConvertibleTo lib (typeOf v) (Type (t ! fieldIdx))
        then Ok (reqValue[fieldIdx := Convert lib v (Type (t ! fieldIdx))])
      else Panic ''reflect.Set: value is not assignable'')"

fun executeFields ::
  "(string \<Rightarrow> 'f ResolvedDependencies \<Rightarrow> ('f val result \<times> 'f ResolvedDependencies) option)
     \<Rightarrow> ('f::zero, 'j) golib \<Rightarrow> request \<Rightarrow> (string \<rightharpoonup> string) \<Rightarrow> string
     \<Rightarrow> structField list \<Rightarrow> (nat \<times> extractor) list \<Rightarrow> 'f val list
     \<Rightarrow> 'f ResolvedDependencies \<Rightarrow> ('f val list result \<times> 'f ResolvedDependencies) option" where
  "executeFields rslv lib r vars body t [] reqValue resolved = Some (Ok reqValue, resolved)"
| "executeFields rslv lib r vars body t ((fieldIdx, ex) # rest) reqValue resolved =
     (case slotValue rslv lib r vars body ex resolved of
        None \<Rightarrow> None
      | Some (Err err, resolved') \<Rightarrow> Some (Err err, resolved')
      | Some (Panic m, resolved') \<Rightarrow> Some (Panic m, resolved')
      | Some (Ok v, resolved') \<Rightarrow>
          (case setFieldExecute lib t reqValue fieldIdx v of
             Ok reqValue' \<Rightarrow> executeFields rslv lib r vars body t rest reqValue' resolved'
           | Err err \<Rightarrow> Some (Err err, resolved')
           | Panic m \<Rightarrow> Some (Panic m, resolved')))"

text \<open>
  \<^verbatim>\<open>Execute\<close>; \<open>vars\<close> is what \<^verbatim>\<open>mux.Vars(r)\<close> returns. The result pairs what
  happened to the response with the state of the request at that moment.
\<close>

definition Execute ::
  "nat \<Rightarrow> ('f::zero, 'j) golib \<Rightarrow> 'f CompiledHandler \<Rightarrow> request \<Rightarrow> (string \<rightharpoonup> string)
     \<Rightarrow> 'f DependencyResolver \<Rightarrow> ('f outcome \<times> 'f ResolvedDependencies) option" where
  "Execute fuel lib ch r vars depResolver =
     (let resolved = \<lparr>resolvedValues = Map.empty, trace = []\<rparr>;
          readBody = (if hasJSONBody ch then Body r else None)
      in case readBody of
           Some (Inl err) \<Rightarrow>
             Some (ErrorHandled (WrapError ''failed to read request body: '' err), resolved)
         | _ \<Rightarrow>
           (let body = (case readBody of Some (Inr b) \<Rightarrow> b | _ \<Rightarrow> [])
            in case executeFields (Resolve fuel lib depResolver r vars body) lib r vars body
                      (reqType ch) (extractors ch) (newStruct (reqType ch)) resolved of
                 None \<Rightarrow> None
               | Some (Err err, resolved') \<Rightarrow> Some (ErrorHandled err, resolved')
               | Some (Panic m, resolved') \<Rightarrow> Some (Panicked m, resolved')
               | Some (Ok reqValue, resolved') \<Rightarrow>
                   (case validateStruct lib (reqType ch) reqValue of
                      Some err \<Rightarrow> Some (ErrorHandled err, resolved')
                    | None \<Rightarrow>
                        (case handlerFunc ch reqValue of
                           Err err \<Rightarrow> Some (ErrorHandled err, resolved')
                         | Panic m \<Rightarrow> Some (Panicked m, resolved')
                         | Ok v \<Rightarrow> Some (Responded v, resolved')))))"

section \<open>errors.go\<close>

record ErrorResponse =
  Code :: string
  Message :: string
  Details :: "(string \<times> string) list"
  Fields :: "(string \<times> string list) list"

text \<open>
  \<^verbatim>\<open>defaultErrorHandler\<close>: the status it writes and the response it encodes as JSON.
\<close>

fun defaultErrorHandler :: "error \<Rightarrow> int \<times> ErrorResponse" where
  "defaultErrorHandler (APIError status code message details) =
     (status, \<lparr>Code = code, Message = message, Details = details, Fields = []\<rparr>)"
| "defaultErrorHandler (ValidationErr status code message fs) =
     (status, \<lparr>Code = code, Message = message, Details = [], Fields = fs\<rparr>)"
| "defaultErrorHandler err =
     (500, \<lparr>Code = ''INTERNAL_ERROR'', Message = ''An internal error occurred'',
            Details = [], Fields = []\<rparr>)"

section \<open>sse.go\<close>

text \<open>
  The transport of a streaming response as the loop sees it: the events written in
  full, the number of flushes, the number of calls of \<^verbatim>\<open>writeSSEEvent\<close>, and the
  errors printed to the server's output. The environment says, for a state of the
  transport, whether the context of the request is done and whether writing an event
  fails.
\<close>

record 'e transport =
  written :: "'e list"
  flushes :: nat
  attempts :: nat
  diagnostics :: "error list"

record 'e sseEnv =
  ctxDone :: "'e transport \<Rightarrow> bool"
  writeSSEEvent :: "'e transport \<Rightarrow> 'e \<Rightarrow> error option"

text \<open>The yield function that \<^verbatim>\<open>streamEvents\<close> hands to the iterator.\<close>

definition yieldFunc :: "'e sseEnv \<Rightarrow> 'e \<Rightarrow> 'e transport \<Rightarrow> bool \<times> 'e transport" where
  "yieldFunc env eventData w =
     (if ctxDone env w then (False, w)
      else (case writeSSEEvent env w eventData of
              Some err \<Rightarrow>
                (False, w\<lparr>attempts := attempts w + 1, diagnostics := diagnostics w @ [err]\<rparr>)
            | None \<Rightarrow>
                (True, w\<lparr>written := written w @ [eventData], flushes := flushes w + 1,
                         attempts := attempts w + 1\<rparr>)))"

text \<open>
  An iterator \<^verbatim>\<open>iter.Seq[EventData[T]]\<close> is code of the application: it returns, or
  it yields an event and goes on according to what the yield function answered.
  \<open>seqOf\<close> is the iterator that yields the events of a list and returns as soon as
  the yield function answers false, as a \<^verbatim>\<open>for\<close> loop with
  \<^verbatim>\<open>if !yield(e) { return }\<close> does.
\<close>

datatype 'e producer = Return | Yield 'e "bool \<Rightarrow> 'e producer"

fun seqOf :: "'e list \<Rightarrow> 'e producer" where
  "seqOf [] = Return"
| "seqOf (e # es) = Yield e (\<lambda>ok. if ok then seqOf es else Return)"

primrec callIter :: "'e sseEnv \<Rightarrow> 'e producer \<Rightarrow> 'e transport \<Rightarrow> 'e transport" where
  "callIter env Return w = w"
| "callIter env (Yield e k) w = (case yieldFunc env e w of (ok, w') \<Rightarrow> callIter env (k ok) w')"

datatype 'e streamed = StreamingNotSupported | Streamed "'e transport"

definition streamEvents :: "'e sseEnv \<Rightarrow> bool \<Rightarrow> 'e producer \<Rightarrow> 'e transport \<Rightarrow> 'e streamed" where
  "streamEvents env isFlusher iterValue w =
     (if \<not> isFlusher then StreamingNotSupported else Streamed (callIter env iterValue w))"

section \<open>Instances for evaluation\<close>

text \<open>
  A library in which no string parses as a floating-point number, only identical types
  convert, no JSON decodes and the validator accepts every struct; of the strings with
  a byte outside ASCII, only equal ones are equal under case folding and none is an
  exported name.
\<close>

definition plainLib :: "(int, unit) golib" where
  "plainLib =
     \<lparr>ParseFloat = (\<lambda>s bits. Inl ErrSyntax),
      typeString = (\<lambda>t. ''?''),
      ConvertibleTo = (\<lambda>t u. t = u),
      Convert = (\<lambda>v t. v),
      jsonUnmarshalMap = (\<lambda>b. Inl (OtherError ''json'')),
      jsonMarshal = (\<lambda>j. Inl (OtherError ''json'')),
      jsonUnmarshal = (\<lambda>b t. Inl (OtherError ''json'')),
      validatorStruct = (\<lambda>t v. Valid),
      EqualFoldUnicode = (\<lambda>s t. s = t),
      IsExportedUnicode = (\<lambda>n. False)\<rparr>"

definition emptyRequest :: request where
  "emptyRequest = \<lparr>Query = Map.empty, Header = Map.empty, Body = None\<rparr>"

text \<open>The result of the \<^verbatim>\<open>auth\<close> dependency of the README.\<close>

definition authUser :: "'f val" where
  "authUser =
     VStruct ''AuthUser''
       [(''UserID'', False, VString ''u1''), (''Username'', False, VString ''john'')]"

text \<open>
  A struct that embeds the result of \<^verbatim>\<open>auth\<close>, so that the fields of the user are
  promoted, and one that embeds a pointer to it, which is nil.
\<close>

definition adminUser :: "'f val" where
  "adminUser = VStruct ''Admin'' [(''AuthUser'', True, authUser), (''Level'', False, VInt TInt 3)]"

definition guestUser :: "'f val" where
  "guestUser =
     VStruct ''Guest''
       [(''AuthUser'', True,
           VPtr (TStruct ''AuthUser'' [(''UserID'', False, TString), (''Username'', False, TString)])
             None),
        (''Level'', False, VInt TInt 0)]"

definition noVars :: "string \<rightharpoonup> string" where
  "noVars = Map.empty"

definition noDependencies :: "int DependencyResolver" where
  "noDependencies = \<lparr>dependencies = Map.empty\<rparr>"

text \<open>The state with which \<^verbatim>\<open>Execute\<close> starts a request.\<close>

definition newResolved :: "'f ResolvedDependencies" where
  "newResolved = \<lparr>resolvedValues = Map.empty, trace = []\<rparr>"

text \<open>
  A transport on which no write fails and whose request context is cancelled once
  \<open>n\<close> flushes have been made.
\<close>

definition cancelAfter :: "nat \<Rightarrow> 'e sseEnv" where
  "cancelAfter n = \<lparr>ctxDone = (\<lambda>w. flushes w \<ge> n), writeSSEEvent = (\<lambda>w e. None)\<rparr>"

definition newTransport :: "'e transport" where
  "newTransport = \<lparr>written = [], flushes = 0, attempts = 0, diagnostics = []\<rparr>"

text \<open>The response of \<^verbatim>\<open>defaultErrorHandler\<close> to an error of a type it does not know.\<close>

definition internalError :: "int \<times> ErrorResponse" where
  "internalError =
     (500, \<lparr>Code = ''INTERNAL_ERROR'', Message = ''An internal error occurred'',
            Details = [], Fields = []\<rparr>)"

text \<open>A request type with one field, read from a header, and a handler with one path parameter.\<close>

definition idField :: structField where
  "idField = \<lparr>Name = ''ID'', PkgPath = [], Type = TInt, Tag = [(''header'', ''X-Id'')]\<rparr>"

definition idHandler :: "int CompiledHandler" where
  "idHandler =
     \<lparr>handlerFunc = (\<lambda>req. Ok (VStruct [] [])),
      reqType = [\<lparr>Name = ''ID'', PkgPath = [], Type = TString, Tag = [(''path'', ''id'')]\<rparr>],
      extractors = [(0, PathExtractor ''id'' TString)],
      validators = [],
      hasJSONBody = False\<rparr>"

text \<open>A transport that is never cancelled and on which the second write fails.\<close>

definition failSecondWrite :: "nat sseEnv" where
  "failSecondWrite =
     \<lparr>ctxDone = (\<lambda>w. False),
      writeSSEEvent = (\<lambda>w e. if attempts w = 1 then Some (OtherError ''broken pipe'') else None)\<rparr>"

section \<open>Notions for the statements about a request\<close>

text \<open>
  The two binding loops differ only in how a value is stored in the field; \<open>bindFields\<close>
  is the loop with that step and the computation of a slot's value as parameters.
\<close>

fun bindFields ::
  "('f val list \<Rightarrow> nat \<Rightarrow> 'f val \<Rightarrow> 'f val list result)
     \<Rightarrow> (extractor \<Rightarrow> 'f ResolvedDependencies \<Rightarrow> ('f val result \<times> 'f ResolvedDependencies) option)
     \<Rightarrow> (nat \<times> extractor) list \<Rightarrow> 'f val list
     \<Rightarrow> 'f ResolvedDependencies \<Rightarrow> ('f val list result \<times> 'f ResolvedDependencies) option" where
  "bindFields setField slotv [] reqValue resolved = Some (Ok reqValue, resolved)"
| "bindFields setField slotv ((fieldIdx, ex) # rest) reqValue resolved =
     (case slotv ex resolved of
        None \<Rightarrow> None
      | Some (Err err, resolved') \<Rightarrow> Some (Err err, resolved')
      | Some (Panic m, resolved') \<Rightarrow> Some (Panic m, resolved')
      | Some (Ok v, resolved') \<Rightarrow>
          (case setField reqValue fieldIdx v of
             Ok reqValue' \<Rightarrow> bindFields setField slotv rest reqValue' resolved'
           | Err err \<Rightarrow> Some (Err err, resolved')
           | Panic m \<Rightarrow> Some (Panic m, resolved')))"

text \<open>
  The names of the dependencies whose \<^verbatim>\<open>Handle\<close> method was called, in the order of
  the calls, and the errors that the validator and the \<^verbatim>\<open>Handle\<close> methods returned.
\<close>

fun invokedNames :: "'f event list \<Rightarrow> string list" where
  "invokedNames [] = []"
| "invokedNames (Invoked n res # evs) = n # invokedNames evs"
| "invokedNames (Validated n e # evs) = invokedNames evs"

fun failures :: "'f event list \<Rightarrow> error list" where
  "failures [] = []"
| "failures (Validated n (Some e) # evs) = e # failures evs"
| "failures (Invoked n (Err e) # evs) = e # failures evs"
| "failures (ev # evs) = failures evs"

text \<open>
  The dependencies that a list of slots refers to, and the relation between a registered
  dependency and the dependencies that the slots of its request type refer to.
\<close>

definition depNames :: "(nat \<times> extractor) list \<Rightarrow> string set" where
  "depNames slots = {d. \<exists>i path ft. (i, DependencyExtractor d path ft) \<in> set slots}"

definition directDep :: "'f DependencyResolver \<Rightarrow> string \<Rightarrow> string \<Rightarrow> bool" where
  "directDep dr a b =
     (\<exists>dep i path ft. dependencies dr a = Some dep
        \<and> (i, DependencyExtractor b path ft) \<in> set (extractors dep))"

text \<open>
  The invariant of a resolution, for a set \<open>S\<close> of names whose resolution is under way:
  no \<^verbatim>\<open>Handle\<close> method was called twice, no name of \<open>S\<close> is in the cache, and every
  dependency whose method was called is in the cache (while no error has occurred). This is
  what holds before a call of \<^verbatim>\<open>Resolve\<close> and what holds after it; the cache only grows.
\<close>

definition resolvePre :: "string set \<Rightarrow> 'f ResolvedDependencies \<Rightarrow> bool" where
  "resolvePre S st =
     (distinct (invokedNames (trace st)) \<and> S \<inter> dom (resolvedValues st) = {}
      \<and> set (invokedNames (trace st)) \<subseteq> dom (resolvedValues st))"

definition resolvePost ::
  "string set \<Rightarrow> 'f ResolvedDependencies \<Rightarrow> 'a result \<Rightarrow> 'f ResolvedDependencies \<Rightarrow> bool" where
  "resolvePost S st res st' =
     (distinct (invokedNames (trace st')) \<and> S \<inter> dom (resolvedValues st') = {}
      \<and> dom (resolvedValues st) \<subseteq> dom (resolvedValues st')
      \<and> (\<forall>v. res = Ok v \<longrightarrow> set (invokedNames (trace st')) \<subseteq> dom (resolvedValues st')))"

text \<open>A resolver keeps the invariant for the dependencies of \<open>D\<close> and caches what it resolves.\<close>

definition resolverOK ::
  "string set \<Rightarrow> string set
     \<Rightarrow> (string \<Rightarrow> 'f ResolvedDependencies \<Rightarrow> ('a result \<times> 'f ResolvedDependencies) option) \<Rightarrow> bool" where
  "resolverOK S D rslv =
     (\<forall>d \<in> D. \<forall>st res st'. resolvePre S st \<and> rslv d st = Some (res, st') \<longrightarrow>
        resolvePost S st res st' \<and> (\<forall>v. res = Ok v \<longrightarrow> d \<in> dom (resolvedValues st')))"

text \<open>
  When no call has failed before, every error that the validator or a \<^verbatim>\<open>Handle\<close>
  method returned is the error of the result.
\<close>

definition failsWith :: "'f ResolvedDependencies \<Rightarrow> 'a result \<Rightarrow> 'f ResolvedDependencies \<Rightarrow> bool" where
  "failsWith st res st' = (failures (trace st) = [] \<longrightarrow> (\<forall>e \<in> set (failures (trace st')). res = Err e))"

text \<open>
  The value of a slot and the binding loop when the result of every dependency is given
  by a function \<open>f\<close>: no state is involved.
\<close>

fun pureSlot ::
  "(string \<Rightarrow> 'f val) \<Rightarrow> ('f::zero, 'j) golib \<Rightarrow> request \<Rightarrow> (string \<rightharpoonup> string) \<Rightarrow> string
     \<Rightarrow> extractor \<Rightarrow> 'f val result" where
  "pureSlot f lib r vars body (DependencyExtractor depName fieldPath fieldType) =
     (if length fieldPath > 1 then extractNestedField lib (f depName) (tl fieldPath)
      else Ok (f depName))"
| "pureSlot f lib r vars body ex = Extract lib ex r vars body"

fun pureFields ::
  "('f val list \<Rightarrow> nat \<Rightarrow> 'f val \<Rightarrow> 'f val list result) \<Rightarrow> (extractor \<Rightarrow> 'f val result)
     \<Rightarrow> (nat \<times> extractor) list \<Rightarrow> 'f val list \<Rightarrow> 'f val list result" where
  "pureFields setField pv [] reqValue = Ok reqValue"
| "pureFields setField pv ((fieldIdx, ex) # rest) reqValue =
     (case pv ex of
        Err err \<Rightarrow> Err err
      | Panic m \<Rightarrow> Panic m
      | Ok v \<Rightarrow>
          (case setField reqValue fieldIdx v of
             Ok reqValue' \<Rightarrow> pureFields setField pv rest reqValue'
           | Err err \<Rightarrow> Err err
           | Panic m \<Rightarrow> Panic m))"

text \<open>
  What the end of a loop body does with a value depends on the value, the index of the
  field and the length of the struct only: nothing, a store, or a panic. Both loops are of
  this form.
\<close>

datatype 'f decision = Skip | Store "'f val" | Fail string

definition decideExecute ::
  "('f, 'j) golib \<Rightarrow> structField list \<Rightarrow> nat \<Rightarrow> nat \<Rightarrow> 'f val \<Rightarrow> 'f decision" where
  "decideExecute lib t n fieldIdx v =
     (if v = VNil then Skip
      else if fieldIdx \<ge> n \<or> fieldIdx \<ge> length t then Fail ''reflect: Field index out of range''
      else if ConvertibleTo lib (typeOf v) (Type (t ! fieldIdx))
        then Store (Convert lib v (Type (t ! fieldIdx)))
      else Fail ''reflect.Set: value is not assignable'')"

definition decideResolve ::
  "('f, 'j) golib \<Rightarrow> structField list \<Rightarrow> nat \<Rightarrow> nat \<Rightarrow> 'f val \<Rightarrow> 'f decision" where
  "decideResolve lib t n fieldIdx v =
     (if v = VNil then Skip
      else if fieldIdx \<ge> n \<or> fieldIdx \<ge> length t then Fail ''reflect: Field index out of range''
      else if ConvertibleTo lib (typeOf v) (Type (t ! fieldIdx))
        then Store (Convert lib v (Type (t ! fieldIdx)))
      else Skip)"

definition applyDecision ::
  "(nat \<Rightarrow> nat \<Rightarrow> 'f val \<Rightarrow> 'f decision) \<Rightarrow> 'f val list \<Rightarrow> nat \<Rightarrow> 'f val \<Rightarrow> 'f val list result" where
  "applyDecision dec reqValue fieldIdx v =
     (case dec (length reqValue) fieldIdx v of
        Skip \<Rightarrow> Ok reqValue
      | Store w \<Rightarrow> Ok (reqValue[fieldIdx := w])
      | Fail m \<Rightarrow> Panic m)"

text \<open>
  A slot is accepted when its value is computed and not refused; the field \<open>j\<close> of the
  struct after the loop is what the slot with index \<open>j\<close> stores, if there is one.
\<close>

definition slotStores ::
  "(nat \<Rightarrow> nat \<Rightarrow> 'f val \<Rightarrow> 'f decision) \<Rightarrow> nat \<Rightarrow> (extractor \<Rightarrow> 'f val result)
     \<Rightarrow> nat \<times> extractor \<Rightarrow> bool" where
  "slotStores dec n pv slot =
     (case pv (snd slot) of
        Ok v \<Rightarrow> (\<forall>m. dec n (fst slot) v \<noteq> Fail m)
      | _ \<Rightarrow> False)"

definition storedField ::
  "(nat \<Rightarrow> nat \<Rightarrow> 'f val \<Rightarrow> 'f decision) \<Rightarrow> (extractor \<Rightarrow> 'f val result) \<Rightarrow> (nat \<rightharpoonup> extractor)
     \<Rightarrow> 'f val list \<Rightarrow> nat \<Rightarrow> 'f val" where
  "storedField dec pv m rv j =
     (case m j of
        None \<Rightarrow> rv ! j
      | Some ex \<Rightarrow>
          (case pv ex of
             Ok v \<Rightarrow> (case dec (length rv) j v of Store w \<Rightarrow> w | _ \<Rightarrow> rv ! j)
           | _ \<Rightarrow> rv ! j))"

text \<open>
  The result of a dependency, apart from any cache: a registered dependency has the
  result \<open>v\<close> when the dependencies that its slots refer to have results, its struct
  binds with them, validates, and its \<^verbatim>\<open>Handle\<close> method returns \<open>v\<close>.
\<close>

inductive depValue ::
  "('f::zero, 'j) golib \<Rightarrow> 'f DependencyResolver \<Rightarrow> request \<Rightarrow> (string \<rightharpoonup> string) \<Rightarrow> string
     \<Rightarrow> string \<Rightarrow> 'f val \<Rightarrow> bool"
  for lib dr r vars body where
  "\<lbrakk>dependencies dr n = Some dep;
    \<forall>d \<in> depNames (extractors dep). depValue lib dr r vars body d (f d);
    pureFields (setFieldResolve lib (reqType dep)) (pureSlot f lib r vars body) (extractors dep)
      (newStruct (reqType dep)) = Ok rv;
    validateStruct lib (reqType dep) rv = None;
    handlerFunc dep rv = Ok v\<rbrakk>
   \<Longrightarrow> depValue lib dr r vars body n v"

definition depResult ::
  "('f::zero, 'j) golib \<Rightarrow> 'f DependencyResolver \<Rightarrow> request \<Rightarrow> (string \<rightharpoonup> string) \<Rightarrow> string
     \<Rightarrow> string \<Rightarrow> 'f val" where
  "depResult lib dr r vars body d = (THE v. depValue lib dr r vars body d v)"

text \<open>
  A cache is sound when it holds results of dependencies only; a resolver is sound when
  it returns results and keeps the cache sound.
\<close>

definition cacheSound ::
  "('f::zero, 'j) golib \<Rightarrow> 'f DependencyResolver \<Rightarrow> request \<Rightarrow> (string \<rightharpoonup> string) \<Rightarrow> string
     \<Rightarrow> 'f ResolvedDependencies \<Rightarrow> bool" where
  "cacheSound lib dr r vars body st =
     (\<forall>n v. resolvedValues st n = Some v \<longrightarrow> depValue lib dr r vars body n v)"

definition resolverSound ::
  "('f::zero, 'j) golib \<Rightarrow> 'f DependencyResolver \<Rightarrow> request \<Rightarrow> (string \<rightharpoonup> string) \<Rightarrow> string
     \<Rightarrow> (string \<Rightarrow> 'f ResolvedDependencies \<Rightarrow> ('f val result \<times> 'f ResolvedDependencies) option)
     \<Rightarrow> bool" where
  "resolverSound lib dr r vars body rslv =
     (\<forall>d st dv st'. cacheSound lib dr r vars body st \<and> rslv d st = Some (Ok dv, st') \<longrightarrow>
        depValue lib dr r vars body d dv \<and> cacheSound lib dr r vars body st')"

text \<open>
  Two orders in which the entries of one Go map of extractors can be visited, and two
  registries that differ only in such orders.
\<close>

definition sameSlots :: "(nat \<times> extractor) list \<Rightarrow> (nat \<times> extractor) list \<Rightarrow> bool" where
  "sameSlots xs ys = (distinct (map fst xs) \<and> distinct (map fst ys) \<and> set xs = set ys)"

definition reordered :: "'f DependencyResolver \<Rightarrow> 'f DependencyResolver \<Rightarrow> bool" where
  "reordered dr dr' =
     (\<forall>n. case dependencies dr n of
            None \<Rightarrow> dependencies dr' n = None
          | Some dep \<Rightarrow>
              (case dependencies dr' n of
                 None \<Rightarrow> False
               | Some dep' \<Rightarrow>
                   handlerFunc dep' = handlerFunc dep \<and> reqType dep' = reqType dep
                   \<and> sameSlots (extractors dep) (extractors dep')))"

text \<open>The body that \<^verbatim>\<open>Execute\<close> passes to the extractors.\<close>

definition requestBody :: "'f CompiledHandler \<Rightarrow> request \<Rightarrow> string" where
  "requestBody ch r =
     (case (if hasJSONBody ch then Body r else None) of Some (Inr b) \<Rightarrow> b | _ \<Rightarrow> [])"

section \<open>Dependencies and handlers for evaluation\<close>

text \<open>
  The scenario of the specification: dependency \<open>A\<close> is referenced by field \<open>X\<close> of the
  request and by dependency \<open>B\<close>, on which field \<open>Y\<close> depends.
\<close>

definition depA :: "int compiledDependency" where
  "depA = \<lparr>handlerFunc = (\<lambda>req. Ok (VString ''a'')), reqType = [], extractors = [],
           validators = []\<rparr>"

definition depB :: "int compiledDependency" where
  "depB =
     \<lparr>handlerFunc = (\<lambda>req. Ok (VString ''b'')),
      reqType = [\<lparr>Name = ''A'', PkgPath = [], Type = TString, Tag = [(''dep'', ''A'')]\<rparr>],
      extractors = [(0, DependencyExtractor ''A'' [''A''] TString)],
      validators = []\<rparr>"

definition twoDependencies :: "int DependencyResolver" where
  "twoDependencies = \<lparr>dependencies = [''A'' \<mapsto> depA, ''B'' \<mapsto> depB]\<rparr>"

definition xyHandler :: "int CompiledHandler" where
  "xyHandler =
     \<lparr>handlerFunc = (\<lambda>req. Ok (VSlice TString req)),
      reqType = [\<lparr>Name = ''X'', PkgPath = [], Type = TString, Tag = [(''dep'', ''A'')]\<rparr>,
                 \<lparr>Name = ''Y'', PkgPath = [], Type = TString, Tag = [(''dep'', ''B'')]\<rparr>],
      extractors = [(0, DependencyExtractor ''A'' [''A''] TString),
                    (1, DependencyExtractor ''B'' [''B''] TString)],
      validators = [],
      hasJSONBody = False\<rparr>"

text \<open>The state of the request once \<open>A\<close> is resolved, and once \<open>B\<close> is resolved too.\<close>

definition resolvedA :: "int ResolvedDependencies" where
  "resolvedA = \<lparr>resolvedValues = [''A'' \<mapsto> VString ''a''],
          trace = [Validated ''A'' None, Invoked ''A'' (Ok (VString ''a''))]\<rparr>"

definition resolvedAB :: "int ResolvedDependencies" where
  "resolvedAB = \<lparr>resolvedValues = [''A'' \<mapsto> VString ''a'', ''B'' \<mapsto> VString ''b''],
          trace = [Validated ''A'' None, Invoked ''A'' (Ok (VString ''a'')),
                   Validated ''B'' None, Invoked ''B'' (Ok (VString ''b''))]\<rparr>"

text \<open>
  A dependency \<open>auth\<close> that reads a token from a header and refuses every request, a
  dependency \<open>rate_limit\<close> that depends on it, and a handler that depends on
  \<open>rate_limit\<close>. With \<open>strictLib\<close> the validator rejects an empty token.
\<close>

definition strictLib :: "(int, unit) golib" where
  "strictLib =
     plainLib\<lparr>validatorStruct :=
       (\<lambda>t v. if v = [VString []] then ValidationErrors [(''Token'', ''required'')] else Valid)\<rparr>"

definition depAuth :: "int compiledDependency" where
  "depAuth =
     \<lparr>handlerFunc = (\<lambda>req. Err (APIError 401 [] ''Token required'' [])),
      reqType = [\<lparr>Name = ''Token'', PkgPath = [], Type = TString,
                  Tag = [(''header'', ''Authorization''), (''validate'', ''required'')]\<rparr>],
      extractors = [(0, HeaderExtractor ''Authorization'' TString)],
      validators = [(0, ''required'')]\<rparr>"

definition depRateLimit :: "int compiledDependency" where
  "depRateLimit =
     \<lparr>handlerFunc = (\<lambda>req. Ok (VBool True)),
      reqType = [\<lparr>Name = ''Auth'', PkgPath = [], Type = TString, Tag = [(''dep'', ''auth'')]\<rparr>],
      extractors = [(0, DependencyExtractor ''auth'' [''auth''] TString)],
      validators = []\<rparr>"

definition authDependencies :: "int DependencyResolver" where
  "authDependencies = \<lparr>dependencies = [''auth'' \<mapsto> depAuth, ''rate_limit'' \<mapsto> depRateLimit]\<rparr>"

definition postHandler :: "int CompiledHandler" where
  "postHandler =
     \<lparr>handlerFunc = (\<lambda>req. Ok (VString ''created'')),
      reqType = [\<lparr>Name = ''RateLimit'', PkgPath = [], Type = TBool,
                  Tag = [(''dep'', ''rate_limit'')]\<rparr>],
      extractors = [(0, DependencyExtractor ''rate_limit'' [''rate_limit''] TBool)],
      validators = [],
      hasJSONBody = False\<rparr>"

text \<open>
  The validation error for the empty token, and the state of the request after the
  validator, respectively the \<^verbatim>\<open>Handle\<close> method, of \<open>auth\<close> has failed.
\<close>

definition tokenRequired :: error where
  "tokenRequired =
     ValidationErr 400 ''VALIDATION_ERROR'' ''Validation failed''
       [(''Token'', [''failed required validation''])]"

definition authInvalid :: "int ResolvedDependencies" where
  "authInvalid = \<lparr>resolvedValues = Map.empty, trace = [Validated ''auth'' (Some tokenRequired)]\<rparr>"

definition authRefused :: "int ResolvedDependencies" where
  "authRefused =
     \<lparr>resolvedValues = Map.empty,
      trace = [Validated ''auth'' None,
               Invoked ''auth'' (Err (APIError 401 [] ''Token required'' []))]\<rparr>"

text \<open>A handler with two path parameters.\<close>

definition twoPaths :: "int CompiledHandler" where
  "twoPaths =
     \<lparr>handlerFunc = (\<lambda>req. Ok (VSlice TString req)),
      reqType = [\<lparr>Name = ''ID'', PkgPath = [], Type = TString, Tag = [(''path'', ''id'')]\<rparr>,
                 \<lparr>Name = ''Slug'', PkgPath = [], Type = TString, Tag = [(''path'', ''slug'')]\<rparr>],
      extractors = [(0, PathExtractor ''id'' TString), (1, PathExtractor ''slug'' TString)],
      validators = [],
      hasJSONBody = False\<rparr>"

section \<open>The search for a field terminates\<close>

lemma fields_weight:
  "sum_list (map (\<lambda>(fn, e, ft). Suc (size ft)) (fieldsOf t)) \<le> size t"
proof (cases t)
  case (TStruct n fs)
  have "sum_list (map (\<lambda>(fn, e, ft). Suc (size ft)) fs)
          \<le> size_list (size_prod (\<lambda>x. 0) (size_prod (\<lambda>x. 0) size)) fs"
    by (induction fs) auto
  with TStruct show ?thesis by simp
qed simp_all

lemma embeddedType_size: "embeddedType e ft = Some t \<Longrightarrow> size t \<le> size ft"
  by (cases "(e, ft)" rule: embeddedType.cases) auto

lemma weight_simps [simp]:
  "weight [] = 0" "weight ((t, i) # q) = Suc (size t) + weight q"
  "weight (q @ q') = weight q + weight q'"
  by (simp_all add: weight_def)

lemma scanField_weight:
  "scanField match multiple index i (fn, e, ft) st = Some st' \<Longrightarrow>
     weight (nextScan st') \<le> weight (nextScan st) + Suc (size ft)"
  by (auto split: if_splits option.splits gotype.splits dest: embeddedType_size)

lemma scanFields_weight:
  "scanFields match multiple index i fs st = Some st' \<Longrightarrow>
     weight (nextScan st')
       \<le> weight (nextScan st) + sum_list (map (\<lambda>(fn, e, ft). Suc (size ft)) fs)"
proof (induction fs arbitrary: i st)
  case Nil then show ?case by simp
next
  case (Cons f fs)
  obtain fn e ft where f: "f = (fn, e, ft)" by (cases f) auto
  from Cons.prems obtain st1 where a: "scanField match multiple index i (fn, e, ft) st = Some st1"
    and b: "scanFields match multiple index (Suc i) fs st1 = Some st'"
    by (auto simp: f split: option.splits simp del: scanField.simps)
  from scanField_weight[OF a] Cons.IH[OF b] show ?case by (simp add: f)
qed

lemma scanLevel_weight:
  "scanLevel match count current visited st = Some (visited', st') \<Longrightarrow>
     weight (nextScan st') + length current \<le> weight (nextScan st) + weight current"
proof (induction current arbitrary: visited st)
  case Nil then show ?case by simp
next
  case (Cons c current)
  obtain t index where c: "c = (t, index)" by (cases c) auto
  show ?case
  proof (cases "t \<in> set visited")
    case True
    with Cons.prems have "scanLevel match count current visited st = Some (visited', st')"
      by (simp add: c)
    from Cons.IH[OF this] show ?thesis by (simp add: c)
  next
    case False
    with Cons.prems obtain st1 where
      a: "scanFields match (count t > 1) index 0 (fieldsOf t) st = Some st1"
      and b: "scanLevel match count current (t # visited) st1 = Some (visited', st')"
      by (auto simp: c split: option.splits)
    from scanFields_weight[OF a] fields_weight[of t] Cons.IH[OF b] show ?thesis
      by (simp add: c)
  qed
qed

termination searchLevels
proof (relation "measure (\<lambda>(match, next, count, visited). weight next)")
  show "wf (measure (\<lambda>(match, next, count, visited). weight next))" by simp
next
  fix match :: "string \<Rightarrow> bool" and "next" :: "(gotype \<times> nat list) list"
    and count :: "gotype \<Rightarrow> nat" and visited x2 visited' st
  assume n: "next \<noteq> []"
    and s: "scanLevel match count next visited
              \<lparr>found = None, nextCount = (\<lambda>t. 0), nextScan = []\<rparr> = Some x2"
    and x: "(visited', st) = x2"
  from s x have "scanLevel match count next visited
              \<lparr>found = None, nextCount = (\<lambda>t. 0), nextScan = []\<rparr> = Some (visited', st)"
    by simp
  from scanLevel_weight[OF this] n have "weight (nextScan st) < weight next"
    by (cases "next") auto
  then show "((match, nextScan st, nextCount st, visited'), (match, next, count, visited))
               \<in> measure (\<lambda>(match, next, count, visited). weight next)"
    by simp
qed

section \<open>Properties of the extractors\<close>

lemma ofSum_Err: "ofSum x f = Err e \<Longrightarrow> x = Inl e"
  by (cases x) auto

lemma convertElems_Err:
  assumes "\<And>p e. cv p = Err e \<Longrightarrow> P e" and "convertElems cv et ps = Err e"
  shows "P e"
  using assms(2)
proof (induction ps arbitrary: e)
  case Nil
  then show ?case by simp
next
  case (Cons p ps)
  then show ?case using assms(1)
    by (auto split: result.splits if_splits)
qed

text \<open>Every error of \<^verbatim>\<open>convertValue\<close> is of a type the default error handler does not know.\<close>

lemma convertValue_Err_internal:
  "convertValue lib v t = Err e \<Longrightarrow> defaultErrorHandler e = internalError"
proof (induction lib v t arbitrary: e rule: convertValue.induct)
  case (15 lib v elemType)
  have "convertElems (\<lambda>part. convertValue lib part elemType) elemType (Split v (CHR '','')) = Err e"
    using "15.prems" by (auto split: result.splits)
  then show ?case
    using "15.IH" by (rule convertElems_Err[rotated])
qed (auto simp: internalError_def ParseInt_def ParseUint_def ParseBool_def Let_def
      dest!: ofSum_Err split: if_splits sum.splits numErr.splits)

text \<open>
  The slice case of \<^verbatim>\<open>convertValue\<close>: a result has one element for every part of the
  string, the conversion of the trimmed part; an error is the error of a part; and no part
  whose conversion fails leaves a result.
\<close>

lemma convertElems_Ok:
  "convertElems cv et ps = Ok vs \<Longrightarrow>
     length vs = length ps \<and> (\<forall>i < length ps. cv (TrimSpace (ps ! i)) = Ok (vs ! i) \<and> typeOf (vs ! i) = et)"
proof (induction ps arbitrary: vs)
  case Nil
  then show ?case by simp
next
  case (Cons p ps)
  from Cons.prems obtain x xs where x: "cv (TrimSpace p) = Ok x" "typeOf x = et"
    and xs: "convertElems cv et ps = Ok xs" and vs: "vs = x # xs"
    by (auto split: result.splits if_splits)
  from Cons.IH[OF xs] x vs show ?case
    by (auto simp: nth_Cons split: nat.splits)
qed

lemma convertElems_Err_origin:
  "convertElems cv et ps = Err e \<Longrightarrow> \<exists>p \<in> set ps. cv (TrimSpace p) = Err e"
  by (induction ps) (auto split: result.splits if_splits)

lemma convertValue_slice_Ok:
  assumes "convertValue lib v (TSlice et) = Ok x"
  shows "\<exists>vs. x = VSlice et vs \<and> length vs = length (Split v (CHR '',''))
           \<and> (\<forall>i < length vs. convertValue lib (TrimSpace (Split v (CHR '','') ! i)) et = Ok (vs ! i))"
proof -
  from assms obtain vs where
    vs: "convertElems (\<lambda>part. convertValue lib part et) et (Split v (CHR '','')) = Ok vs"
    and x: "x = VSlice et vs"
    by (auto split: result.splits)
  from convertElems_Ok[OF vs] x show ?thesis by auto
qed

lemma convertValue_slice_Err:
  assumes "convertValue lib v (TSlice et) = Err e"
  shows "\<exists>p \<in> set (Split v (CHR '','')). convertValue lib (TrimSpace p) et = Err e"
proof -
  from assms have "convertElems (\<lambda>part. convertValue lib part et) et (Split v (CHR '','')) = Err e"
    by (auto split: result.splits)
  then show ?thesis by (rule convertElems_Err_origin)
qed

lemma convertValue_slice_aborts:
  assumes "p \<in> set (Split v (CHR '',''))" and "convertValue lib (TrimSpace p) et = Err e"
  shows "convertValue lib v (TSlice et) \<noteq> Ok x"
proof
  assume "convertValue lib v (TSlice et) = Ok x"
  from convertValue_slice_Ok[OF this] obtain vs where
    "length vs = length (Split v (CHR '',''))"
    "\<forall>i < length vs.
        convertValue lib (TrimSpace (Split v (CHR '','') ! i)) et = Ok (vs ! i)"
    by blast
  then have "\<forall>i < length (Split v (CHR '','')).
        convertValue lib (TrimSpace (Split v (CHR '','') ! i)) et = Ok (vs ! i)"
    by simp
  moreover from assms(1) obtain i where "i < length (Split v (CHR '',''))"
    "Split v (CHR '','') ! i = p"
    by (auto simp: in_set_conv_nth)
  ultimately show False using assms(2) by auto
qed

text \<open>
  White space outside ASCII is trimmed at both ends; bytes that only look like it are not.
\<close>

lemma TrimSpace_examples:
  "TrimSpace [CHR 0xC2, CHR 0xA0, CHR ''a'', CHR 0xC2, CHR 0xA0] = ''a''"
  "TrimSpace [CHR ''a'', CHR 0xA0, CHR 0xC2] = [CHR ''a'', CHR 0xA0, CHR 0xC2]"
  "TrimSpace ('' a b '' @ [CHR 0xE2, CHR 0x80, CHR 0x83, CHR 0x0A]) = ''a b''"
  by (simp_all add: TrimSpace_def spaces_def)

text \<open>
  The example of the specification: a sequence of strings, each part trimmed.
\<close>

lemma convertValue_string_slice_example:
  "convertValue lib ''a, b,c'' (TSlice TString)
     = Ok (VSlice TString [VString ''a'', VString ''b'', VString ''c''])"
  by (simp add: TrimSpace_def spaces_def)

text \<open>An element that does not convert aborts the whole slice with its error.\<close>

lemma convertValue_slice_element_error_example:
  "convertValue lib ''1, x'' (TSlice TInt64) = Err (NumError ''ParseInt'' ''x'' ErrSyntax)"
  by (simp add: ParseInt_def isDigit_def TrimSpace_def spaces_def)

text \<open>
  C5. The claim: an absent query or header value yields the zero value and no error,
  also for a field of type bool. For a header it does; for a query parameter the code
  excludes bool from the zero-value shortcut and hands the empty string to
  \<^verbatim>\<open>strconv.ParseBool\<close>, which fails: an absent boolean query parameter is an error.
\<close>

theorem query_bool_absent_is_error:
  "Extract lib (QueryExtractor ''draft'' TBool) emptyRequest vars body
     = Err (NumError ''ParseBool'' [] ErrSyntax)
   \<and> Extract lib (HeaderExtractor ''draft'' TBool) emptyRequest vars body = Ok (VBool False)"
  by (simp add: emptyRequest_def Get_def ParseBool_def)

lemma typeOf_zeroValue: "typeOf (zeroValue t :: ('f::zero) val) = t"
proof (induction t)
  case (TStruct n fs)
  have "\<And>f. f \<in> set fs \<Longrightarrow>
          (case (case f of (fn, e, t) \<Rightarrow> (fn, e, zeroValue t :: 'f val)) of
             (fn, e, v) \<Rightarrow> (fn, e, typeOf v)) = f"
    using TStruct.IH by (fastforce split: prod.splits)
  then have "map ((\<lambda>(fn, e, v). (fn, e, typeOf v)) \<circ> (\<lambda>(fn, e, t). (fn, e, zeroValue t :: 'f val))) fs = fs"
    by (intro map_idI) simp
  then show ?case by simp
qed simp_all

lemma zeroValue_facts:
  assumes "t \<noteq> TInterface"
  shows "typeOf (zeroValue t :: ('f::zero) val) = t"
    and "(zeroValue t :: ('f::zero) val) \<noteq> VNil"
    and "Interface (zeroValue t :: ('f::zero) val) = zeroValue t"
proof -
  show "typeOf (zeroValue t :: ('f::zero) val) = t" by (rule typeOf_zeroValue)
  show "(zeroValue t :: ('f::zero) val) \<noteq> VNil" using assms by (cases t) simp_all
  show "Interface (zeroValue t :: ('f::zero) val) = zeroValue t" using assms by (cases t) simp_all
qed

text \<open>
  C7. A path extractor whose variable is absent from the path variables fails with the
  fixed error, and so does the binding loop of \<^verbatim>\<open>Execute\<close> at that slot; a query or
  header extractor of a field that is not of type bool yields the zero value of the field
  type when the value is absent, and the binding loop stores it in the field and goes on
  (the type of a field being convertible to itself).
\<close>

theorem path_absent_fails_query_header_absent_zero:
  "(vars paramName = None \<longrightarrow>
      Extract (lib :: ('f::zero, 'j) golib) (PathExtractor paramName fieldType) r vars body
        = Err (Errorf (''path parameter '' @ paramName @ '' not found''))
      \<and> executeFields rslv lib r vars body t ((i, PathExtractor paramName fieldType) # rest)
            reqValue resolved
        = Some (Err (Errorf (''path parameter '' @ paramName @ '' not found'')), resolved))
   \<and> (Query r paramName = None \<and> fieldType \<noteq> TBool \<longrightarrow>
      Extract lib (QueryExtractor paramName fieldType) r vars body
        = Ok (Interface (zeroValue fieldType)))
   \<and> (Header r paramName = None \<and> fieldType \<noteq> TBool \<longrightarrow>
      Extract lib (HeaderExtractor paramName fieldType) r vars body
        = Ok (Interface (zeroValue fieldType)))
   \<and> ((ex = QueryExtractor paramName fieldType \<and> Query r paramName = None
         \<or> ex = HeaderExtractor paramName fieldType \<and> Header r paramName = None)
        \<and> fieldType \<noteq> TBool \<and> i < length reqValue \<and> i < length t
        \<and> Type (t ! i) = fieldType \<and> ConvertibleTo lib fieldType fieldType \<longrightarrow>
      executeFields rslv lib r vars body t ((i, ex) # rest) reqValue resolved
        = executeFields rslv lib r vars body t rest
            (if fieldType = TInterface then reqValue
             else reqValue[i := Convert lib (zeroValue fieldType) fieldType])
            resolved)"
proof -
  have a: "vars paramName = None \<longrightarrow>
      Extract lib (PathExtractor paramName fieldType) r vars body
        = Err (Errorf (''path parameter '' @ paramName @ '' not found''))
      \<and> executeFields rslv lib r vars body t ((i, PathExtractor paramName fieldType) # rest)
            reqValue resolved
        = Some (Err (Errorf (''path parameter '' @ paramName @ '' not found'')), resolved)"
    by simp
  have b: "Query r paramName = None \<and> fieldType \<noteq> TBool \<longrightarrow>
      Extract lib (QueryExtractor paramName fieldType) r vars body
        = Ok (Interface (zeroValue fieldType))"
    by (simp add: Get_def)
  have c: "Header r paramName = None \<and> fieldType \<noteq> TBool \<longrightarrow>
      Extract lib (HeaderExtractor paramName fieldType) r vars body
        = Ok (Interface (zeroValue fieldType))"
    by (simp add: Get_def)
  have d: "(ex = QueryExtractor paramName fieldType \<and> Query r paramName = None
         \<or> ex = HeaderExtractor paramName fieldType \<and> Header r paramName = None)
        \<and> fieldType \<noteq> TBool \<and> i < length reqValue \<and> i < length t
        \<and> Type (t ! i) = fieldType \<and> ConvertibleTo lib fieldType fieldType \<longrightarrow>
      executeFields rslv lib r vars body t ((i, ex) # rest) reqValue resolved
        = executeFields rslv lib r vars body t rest
            (if fieldType = TInterface then reqValue
             else reqValue[i := Convert lib (zeroValue fieldType) fieldType])
            resolved"
  proof (intro impI, elim conjE)
    assume ex: "ex = QueryExtractor paramName fieldType \<and> Query r paramName = None
         \<or> ex = HeaderExtractor paramName fieldType \<and> Header r paramName = None"
      and nb: "fieldType \<noteq> TBool" and i: "i < length reqValue" "i < length t"
      and ty: "Type (t ! i) = fieldType" and cv: "ConvertibleTo lib fieldType fieldType"
    from ex nb have sv: "slotValue rslv lib r vars body ex resolved
                       = Some (Ok (Interface (zeroValue fieldType)), resolved)"
      by (auto simp: Get_def)
    show "executeFields rslv lib r vars body t ((i, ex) # rest) reqValue resolved
        = executeFields rslv lib r vars body t rest
            (if fieldType = TInterface then reqValue
             else reqValue[i := Convert lib (zeroValue fieldType) fieldType])
            resolved"
    proof (cases "fieldType = TInterface")
      case True
      then show ?thesis using sv by (simp add: setFieldExecute_def)
    next
      case False
      note z = zeroValue_facts[OF False, where 'f = 'f]
      from sv have "slotValue rslv lib r vars body ex resolved
                      = Some (Ok (zeroValue fieldType), resolved)"
        by (simp add: z(3))
      with False z(1,2) i ty cv show ?thesis
        by (simp add: setFieldExecute_def)
    qed
  qed
  from a b c d show ?thesis by simp
qed

theorem path_absent_fails_query_header_absent_zero_witness:
  "noVars ''id'' = None
   \<and> Extract plainLib (PathExtractor ''id'' TInt) emptyRequest noVars []
       = Err (Errorf ''path parameter id not found'')
   \<and> executeFields (Resolve 0 plainLib noDependencies emptyRequest noVars []) plainLib
         emptyRequest noVars [] [idField] [(0, PathExtractor ''id'' TInt)] [VInt TInt 7] newResolved
       = Some (Err (Errorf ''path parameter id not found''), newResolved)
   \<and> Query emptyRequest ''id'' = None \<and> Header emptyRequest ''id'' = None \<and> TInt \<noteq> TBool
   \<and> Extract plainLib (QueryExtractor ''id'' TInt) emptyRequest noVars [] = Ok (VInt TInt 0)
   \<and> Extract plainLib (HeaderExtractor ''id'' TInt) emptyRequest noVars [] = Ok (VInt TInt 0)
   \<and> ConvertibleTo plainLib TInt TInt
   \<and> executeFields (Resolve 0 plainLib noDependencies emptyRequest noVars []) plainLib
         emptyRequest noVars [] [idField] [(0, QueryExtractor ''id'' TInt)] [VInt TInt 7] newResolved
       = Some (Ok [VInt TInt 0], newResolved)
   \<and> executeFields (Resolve 0 plainLib noDependencies emptyRequest noVars []) plainLib
         emptyRequest noVars [] [idField] [(0, HeaderExtractor ''id'' TInt)] [VInt TInt 7] newResolved
       = Some (Ok [VInt TInt 0], newResolved)"
  using path_absent_fails_query_header_absent_zero
          [where vars = noVars and paramName = "''id''" and lib = plainLib and fieldType = TInt
             and r = emptyRequest and body = "[]"
             and rslv = "Resolve 0 plainLib noDependencies emptyRequest noVars []"
             and t = "[idField]" and i = 0 and rest = "[]" and reqValue = "[VInt TInt 7]"
             and resolved = newResolved and ex = "QueryExtractor ''id'' TInt"]
        path_absent_fails_query_header_absent_zero
          [where vars = noVars and paramName = "''id''" and lib = plainLib and fieldType = TInt
             and r = emptyRequest and body = "[]"
             and rslv = "Resolve 0 plainLib noDependencies emptyRequest noVars []"
             and t = "[idField]" and i = 0 and rest = "[]" and reqValue = "[VInt TInt 7]"
             and resolved = newResolved and ex = "HeaderExtractor ''id'' TInt"]
  by (simp add: noVars_def emptyRequest_def idField_def plainLib_def)

text \<open>
  C8. The claim: every sequence field is split on commas and each part is trimmed and
  coerced to the element type. For a slice of int the parsed element is an int64, and
  storing it in the slice panics in package reflect: the input \<open>1,2\<close> yields neither a
  sequence nor an error.
\<close>

theorem int_slice_panics:
  "convertValue lib ''1,2'' (TSlice TInt) = Panic ''reflect.Set: value is not assignable''"
  by (simp add: ParseInt_def isDigit_def TrimSpace_def spaces_def)

section \<open>Properties of dependency resolution\<close>

subsection \<open>Navigation into the result of a dependency\<close>

lemma firstIndex_first:
  "i < length xs \<Longrightarrow> P (xs ! i) \<Longrightarrow> \<forall>j<i. \<not> P (xs ! j) \<Longrightarrow> firstIndex P xs = Some i"
proof (induction xs arbitrary: i)
  case Nil then show ?case by simp
next
  case (Cons x xs)
  show ?case
  proof (cases i)
    case 0
    with Cons.prems show ?thesis by simp
  next
    case (Suc k)
    with Cons.prems have "\<not> P x" by auto
    moreover from Suc Cons.prems have "firstIndex P xs = Some k"
      by (intro Cons.IH) auto
    ultimately show ?thesis by (simp add: Suc)
  qed
qed

lemma firstIndex_None: "firstIndex P xs = None \<longleftrightarrow> (\<forall>x \<in> set xs. \<not> P x)"
  by (induction xs) auto

lemma firstIndex_map: "firstIndex P (map f xs) = firstIndex (\<lambda>x. P (f x)) xs"
  by (induction xs) auto

lemma navigate_not_Err: "navigate lib sv path \<noteq> Err e"
proof (induction path arbitrary: sv)
  case Nil
  then show ?case by (cases sv) auto
next
  case (Cons field path)
  obtain v stickyRO embedRO where sv: "sv = (v, stickyRO, embedRO)" by (cases sv) auto
  show ?case
    using Cons.IH
    by (auto simp: sv split: option.splits val.splits sum.splits)
qed

text \<open>The field of a struct without embedded fields is found by its name alone.\<close>

lemma FieldByName_plain:
  assumes "\<forall>f \<in> set fs. \<not> fst (snd f)"
  shows "FieldByName (typeOf (VStruct n fs)) seg
           = (if seg = [] then None else map_option (\<lambda>i. [i]) (firstIndex (\<lambda>f. fst f = seg) fs))"
proof -
  have a: "firstIndex (\<lambda>(fname, embedded, ftyp). fname = seg)
             (map (\<lambda>(fn, e, v). (fn, e, typeOf v)) fs)
           = firstIndex (\<lambda>f. fst f = seg) fs"
    by (simp add: firstIndex_map case_prod_beta)
  from assms have b: "\<not> list_ex (\<lambda>(fname, embedded, ftyp). embedded)
             (map (\<lambda>(fn, e, v). (fn, e, typeOf v)) fs)"
    by (auto simp: list_ex_iff)
  show ?thesis
    by (simp add: FieldByName_def a b split: option.splits)
qed

lemma FieldByName_direct:
  assumes "seg \<noteq> []" "i < length fs" "fst (fs ! i) = seg" "\<forall>j<i. fst (fs ! j) \<noteq> seg"
  shows "FieldByName (typeOf (VStruct n fs)) seg = Some [i]"
proof -
  have "firstIndex (\<lambda>(fname, embedded, ftyp). fname = seg)
             (map (\<lambda>(fn, e, v). (fn, e, typeOf v)) fs)
           = firstIndex (\<lambda>f. fst f = seg) fs"
    by (simp add: firstIndex_map case_prod_beta)
  also have "\<dots> = Some i"
    using assms by (intro firstIndex_first) auto
  finally show ?thesis using assms(1) by (simp add: FieldByName_def)
qed

text \<open>The search through an embedded struct, evaluated.\<close>

lemma FieldByName_promoted:
  "FieldByName (typeOf (adminUser :: 'f val)) ''UserID'' = Some [0, 0]"
  "FieldByName (typeOf (adminUser :: 'f val)) ''userid'' = None"
  "FieldByName (typeOf (guestUser :: 'f val)) ''UserID'' = Some [0, 0]"
  by (simp_all add: adminUser_def guestUser_def authUser_def FieldByName_def FieldByNameFunc_def)

text \<open>
  C9. Navigation into the result of a dependency, segment by segment. Pointers are
  followed; at a nil pointer and at a value that is no struct the result is nil. In a
  struct, the field with the name of the segment is taken (the first one, whatever
  other fields match without regard to case); when \<^verbatim>\<open>FieldByName\<close> finds none, the
  first field of the struct whose name is equal to the segment under case folding is
  taken; when there is none either, the result is nil. In a struct without embedded
  fields, \<^verbatim>\<open>FieldByName\<close> finds none exactly when no field has the name. At the end
  of the path the value reached is returned, and the navigation never returns an
  error. With \<^verbatim>\<open>auth\<close> resolved to the user \<open>u1\<close>, \<open>john\<close>, the path \<^verbatim>\<open>auth.UserID\<close>
  yields \<open>u1\<close> and the path \<^verbatim>\<open>auth.Missing\<close> yields nil; \<^verbatim>\<open>auth.userid\<close> yields \<open>u1\<close>
  as well, and so does the path \<^verbatim>\<open>UserID\<close> into a struct that embeds the user.
\<close>

theorem nested_field_navigation:
  fixes lib :: "('f::zero, 'j) golib"
  shows
  "navigate lib (VPtr t (Some v), stickyRO, embedRO) (seg # path)
     = navigate lib (v, stickyRO, embedRO) (seg # path)
   \<and> navigate lib (VPtr t None, stickyRO, embedRO) (seg # path) = Ok VNil
   \<and> ((\<forall>t p. w \<noteq> VPtr t p) \<and> (\<forall>n fs. w \<noteq> VStruct n fs) \<longrightarrow>
        navigate lib (w, stickyRO, embedRO) (seg # path) = Ok VNil)
   \<and> (seg \<noteq> [] \<and> i < length fs \<and> fs ! i = (seg, e, x) \<and> (\<forall>j<i. fst (fs ! j) \<noteq> seg) \<longrightarrow>
        navigate lib (VStruct n fs, stickyRO, embedRO) (seg # path)
          = navigate lib
              (x, stickyRO \<or> (\<not> isExported lib seg \<and> \<not> e), \<not> isExported lib seg \<and> e) path)
   \<and> (FieldByName (typeOf (VStruct n fs)) seg = None
        \<and> i < length fs \<and> fs ! i = (fn, e, x) \<and> EqualFold lib fn seg
        \<and> (\<forall>j<i. \<not> EqualFold lib (fst (fs ! j)) seg) \<longrightarrow>
        navigate lib (VStruct n fs, stickyRO, embedRO) (seg # path)
          = navigate lib
              (x, stickyRO \<or> (\<not> isExported lib fn \<and> \<not> e), \<not> isExported lib fn \<and> e) path)
   \<and> (FieldByName (typeOf (VStruct n fs)) seg = None
        \<and> (\<forall>f \<in> set fs. \<not> EqualFold lib (fst f) seg) \<longrightarrow>
        navigate lib (VStruct n fs, stickyRO, embedRO) (seg # path) = Ok VNil)
   \<and> ((\<forall>f \<in> set fs. \<not> fst (snd f)) \<longrightarrow>
        (FieldByName (typeOf (VStruct n fs)) seg = None \<longleftrightarrow> seg = [] \<or> seg \<notin> fst ` set fs))
   \<and> navigate lib (x, False, False) [] = Ok (Interface x)
   \<and> extractNestedField lib obj path
        = (if path = [] then Ok obj else navigate lib (obj, False, False) path)
   \<and> extractNestedField lib obj path \<noteq> Err err
   \<and> slotValue (\<lambda>name resolved. Some (Ok authUser, resolved)) lib r vars body
        (DependencyExtractor ''auth'' [''auth'', ''UserID''] TString) resolved
       = Some (Ok (VString ''u1''), resolved)
   \<and> slotValue (\<lambda>name resolved. Some (Ok authUser, resolved)) lib r vars body
        (DependencyExtractor ''auth'' [''auth'', ''Missing''] TString) resolved
       = Some (Ok VNil, resolved)
   \<and> extractNestedField lib authUser [''userid''] = Ok (VString ''u1'')
   \<and> extractNestedField lib adminUser [''UserID''] = Ok (VString ''u1'')
   \<and> extractNestedField lib adminUser [''authuser'', ''USERNAME''] = Ok (VString ''john'')
   \<and> extractNestedField lib (VPtr t (Some adminUser)) [''Level''] = Ok (VInt TInt 3)"
proof -
  let ?sv = "(VStruct n fs, stickyRO, embedRO)"
  have c1: "navigate lib (VPtr t (Some v), stickyRO, embedRO) (seg # path)
              = navigate lib (v, stickyRO, embedRO) (seg # path)"
    by simp
  have c2: "navigate lib (VPtr t None, stickyRO, embedRO) (seg # path) = Ok VNil"
    by simp
  have c3: "(\<forall>t p. w \<noteq> VPtr t p) \<and> (\<forall>n fs. w \<noteq> VStruct n fs) \<longrightarrow>
        navigate lib (w, stickyRO, embedRO) (seg # path) = Ok VNil"
    by (cases w) auto
  have c4: "seg \<noteq> [] \<and> i < length fs \<and> fs ! i = (seg, e, x) \<and> (\<forall>j<i. fst (fs ! j) \<noteq> seg) \<longrightarrow>
        navigate lib ?sv (seg # path)
          = navigate lib
              (x, stickyRO \<or> (\<not> isExported lib seg \<and> \<not> e), \<not> isExported lib seg \<and> e) path"
  proof
    assume h: "seg \<noteq> [] \<and> i < length fs \<and> fs ! i = (seg, e, x) \<and> (\<forall>j<i. fst (fs ! j) \<noteq> seg)"
    then have "FieldByName (typeOf (VStruct n fs)) seg = Some [i]"
      by (intro FieldByName_direct) auto
    then have "ValueFieldByName lib ?sv seg = Some (Field lib ?sv i)"
      by (simp add: ValueFieldByName_def split: sum.splits)
    with h show "navigate lib ?sv (seg # path)
          = navigate lib
              (x, stickyRO \<or> (\<not> isExported lib seg \<and> \<not> e), \<not> isExported lib seg \<and> e) path"
      by simp
  qed
  have c5: "FieldByName (typeOf (VStruct n fs)) seg = None
        \<and> i < length fs \<and> fs ! i = (fn, e, x) \<and> EqualFold lib fn seg
        \<and> (\<forall>j<i. \<not> EqualFold lib (fst (fs ! j)) seg) \<longrightarrow>
        navigate lib ?sv (seg # path)
          = navigate lib
              (x, stickyRO \<or> (\<not> isExported lib fn \<and> \<not> e), \<not> isExported lib fn \<and> e) path"
  proof
    assume h: "FieldByName (typeOf (VStruct n fs)) seg = None
        \<and> i < length fs \<and> fs ! i = (fn, e, x) \<and> EqualFold lib fn seg
        \<and> (\<forall>j<i. \<not> EqualFold lib (fst (fs ! j)) seg)"
    then have "firstIndex (\<lambda>(fname, embedded, x). EqualFold lib fname seg) fs = Some i"
      by (intro firstIndex_first) (auto simp: case_prod_beta)
    then have "foldField lib ?sv seg = Some (Field lib ?sv i)"
      by (simp add: foldField_def)
    moreover from h have "ValueFieldByName lib ?sv seg = None"
      by (simp add: ValueFieldByName_def)
    ultimately show "navigate lib ?sv (seg # path)
          = navigate lib
              (x, stickyRO \<or> (\<not> isExported lib fn \<and> \<not> e), \<not> isExported lib fn \<and> e) path"
      using h by simp
  qed
  have c6: "FieldByName (typeOf (VStruct n fs)) seg = None
        \<and> (\<forall>f \<in> set fs. \<not> EqualFold lib (fst f) seg) \<longrightarrow>
        navigate lib ?sv (seg # path) = Ok VNil"
  proof
    assume h: "FieldByName (typeOf (VStruct n fs)) seg = None
        \<and> (\<forall>f \<in> set fs. \<not> EqualFold lib (fst f) seg)"
    then have "firstIndex (\<lambda>(fname, embedded, x). EqualFold lib fname seg) fs = None"
      by (auto simp: firstIndex_None)
    then have "foldField lib ?sv seg = None"
      by (simp add: foldField_def)
    moreover from h have "ValueFieldByName lib ?sv seg = None"
      by (simp add: ValueFieldByName_def)
    ultimately show "navigate lib ?sv (seg # path) = Ok VNil"
      by simp
  qed
  have c7: "(\<forall>f \<in> set fs. \<not> fst (snd f)) \<longrightarrow>
        (FieldByName (typeOf (VStruct n fs)) seg = None \<longleftrightarrow> seg = [] \<or> seg \<notin> fst ` set fs)"
  proof
    assume h: "\<forall>f \<in> set fs. \<not> fst (snd f)"
    have "firstIndex (\<lambda>f. fst f = seg) fs = None \<longleftrightarrow> seg \<notin> fst ` set fs"
      by (auto simp: firstIndex_None)
    with FieldByName_plain[OF h, of n seg]
    show "FieldByName (typeOf (VStruct n fs)) seg = None \<longleftrightarrow> seg = [] \<or> seg \<notin> fst ` set fs"
      by simp
  qed
  have c8: "navigate lib (x, False, False) [] = Ok (Interface x)"
    by simp
  have c9: "extractNestedField lib obj path
        = (if path = [] then Ok obj else navigate lib (obj, False, False) path)"
    by (simp add: extractNestedField_def)
  have c10: "extractNestedField lib obj path \<noteq> Err err"
    by (simp add: extractNestedField_def navigate_not_Err)
  have c11: "slotValue (\<lambda>name resolved. Some (Ok authUser, resolved)) lib r vars body
        (DependencyExtractor ''auth'' [''auth'', ''UserID''] TString) resolved
       = Some (Ok (VString ''u1''), resolved)"
    by (simp add: extractNestedField_def authUser_def ValueFieldByName_def FieldByName_def
         isExported_def)
  have c12: "slotValue (\<lambda>name resolved. Some (Ok authUser, resolved)) lib r vars body
        (DependencyExtractor ''auth'' [''auth'', ''Missing''] TString) resolved
       = Some (Ok VNil, resolved)"
    by (simp add: extractNestedField_def authUser_def ValueFieldByName_def FieldByName_def
         foldField_def EqualFold_def isASCII_def lowerASCII_def)
  have c13: "extractNestedField lib authUser [''userid''] = Ok (VString ''u1'')"
    by (simp add: extractNestedField_def authUser_def ValueFieldByName_def FieldByName_def
         foldField_def EqualFold_def isASCII_def lowerASCII_def isExported_def)
  have c14: "extractNestedField lib adminUser [''UserID''] = Ok (VString ''u1'')"
    by (simp add: extractNestedField_def adminUser_def authUser_def ValueFieldByName_def
         FieldByName_def FieldByNameFunc_def embeddedElem_def isExported_def)
  have c15: "extractNestedField lib adminUser [''authuser'', ''USERNAME''] = Ok (VString ''john'')"
    by (simp add: extractNestedField_def adminUser_def authUser_def ValueFieldByName_def
         FieldByName_def FieldByNameFunc_def foldField_def EqualFold_def isASCII_def
         lowerASCII_def isExported_def)
  have c16: "extractNestedField lib (VPtr t (Some adminUser)) [''Level''] = Ok (VInt TInt 3)"
    by (simp add: extractNestedField_def adminUser_def authUser_def ValueFieldByName_def
         FieldByName_def isExported_def)
  from c1 c2 c3 c4 c5 c6 c7 c8 c9 c10 c11 c12 c13 c14 c15 c16 show ?thesis
    by (intro conjI)
qed

theorem nested_field_navigation_witness:
  "navigate plainLib (authUser, False, False) [''UserID''] = Ok (VString ''u1'')
   \<and> FieldByName (typeOf (authUser :: int val)) ''USERID'' = None
   \<and> EqualFold plainLib ''UserID'' ''USERID''
   \<and> navigate plainLib (authUser, False, False) [''USERID''] = Ok (VString ''u1'')
   \<and> FieldByName (typeOf (authUser :: int val)) ''Missing'' = None
   \<and> \<not> EqualFold plainLib ''UserID'' ''Missing''
   \<and> \<not> EqualFold plainLib ''Username'' ''Missing''
   \<and> navigate plainLib (authUser, False, False) [''Missing'', ''X''] = Ok VNil
   \<and> navigate plainLib (VString ''u1'', False, False) [''UserID''] = Ok VNil"
  using nested_field_navigation
          [where lib = plainLib and w = "VString ''u1''" and n = "''AuthUser''"
             and fs = "[(''UserID'', False, VString ''u1''), (''Username'', False, VString ''john'')]"
             and seg = "''UserID''" and i = 0 and e = False and x = "VString ''u1''"
             and path = "[]" and stickyRO = False and embedRO = False]
        nested_field_navigation
          [where lib = plainLib and w = "VString ''u1''" and n = "''AuthUser''"
             and fs = "[(''UserID'', False, VString ''u1''), (''Username'', False, VString ''john'')]"
             and seg = "''USERID''" and i = 0 and fn = "''UserID''" and e = False
             and x = "VString ''u1''" and path = "[]" and stickyRO = False and embedRO = False]
        nested_field_navigation
          [where lib = plainLib and w = "VString ''u1''" and n = "''AuthUser''"
             and fs = "[(''UserID'', False, VString ''u1''), (''Username'', False, VString ''john'')]"
             and seg = "''Missing''" and path = "[''X'']" and stickyRO = False and embedRO = False]
  by (simp add: authUser_def ValueFieldByName_def FieldByName_def foldField_def EqualFold_def
        isASCII_def lowerASCII_def isExported_def)

text \<open>
  Where the navigation does not return a value: the field found is not exported, or it
  is promoted through an embedded pointer that is nil. A selector that is ambiguous
  among the embedded structs finds no field.
\<close>

lemma navigation_panics:
  "extractNestedField lib (VStruct ''T'' [(''secret'', False, VString ''s'')]) [''Secret'']
     = Panic ''reflect.Value.Interface: cannot return value obtained from unexported field or method''"
  "extractNestedField lib guestUser [''UserID'']
     = Panic ''reflect: indirection through nil pointer to embedded struct''"
  by (simp_all add: extractNestedField_def guestUser_def ValueFieldByName_def
        FieldByName_def FieldByNameFunc_def embeddedElem_def foldField_def EqualFold_def
        isASCII_def lowerASCII_def isExported_def)

text \<open>
  An exported field of an embedded struct that is not exported is returned, by its name
  and through the embedded field; the embedded struct itself is not.
\<close>

lemma navigation_unexported_embedded:
  "extractNestedField lib
     (VStruct ''S'' [(''base'', True, VStruct ''base'' [(''ID'', False, VString ''u1'')])]) [''ID'']
     = Ok (VString ''u1'')"
  "extractNestedField lib
     (VStruct ''S'' [(''base'', True, VStruct ''base'' [(''ID'', False, VString ''u1'')])])
     [''base'', ''ID'']
     = Ok (VString ''u1'')"
  "extractNestedField lib
     (VStruct ''S'' [(''base'', True, VStruct ''base'' [(''ID'', False, VString ''u1'')])])
     [''base'']
     = Panic ''reflect.Value.Interface: cannot return value obtained from unexported field or method''"
  by (simp_all add: extractNestedField_def ValueFieldByName_def FieldByName_def
        FieldByNameFunc_def embeddedElem_def isExported_def)

lemma FieldByName_ambiguous:
  "FieldByName
     (TStruct ''S''
        [(''A'', True, TStruct ''A'' [(''X'', False, TInt)]),
         (''B'', True, TPtr (TStruct ''B'' [(''X'', False, TString)]))])
     ''X'' = None"
  "FieldByName
     (TStruct ''S''
        [(''A'', True, TStruct ''A'' [(''C'', True, TStruct ''C'' [(''X'', False, TInt)])]),
         (''B'', True, TStruct ''B'' [(''C'', True, TStruct ''C'' [(''X'', False, TInt)])])])
     ''X'' = None"
  "FieldByName
     (TStruct ''S''
        [(''A'', True, TStruct ''A'' [(''C'', True, TStruct ''C'' [(''X'', False, TInt)])]),
         (''B'', True, TStruct ''B'' [(''X'', False, TString)])])
     ''X'' = Some [1, 0]"
  by (simp_all add: FieldByName_def FieldByNameFunc_def)

text \<open>
  C10. In \<^verbatim>\<open>Resolve\<close>, a slot whose value is not nil and whose dynamic type is not
  convertible to the type of the field leaves the request struct as it was, and the loop
  goes on with the next slot.
\<close>

theorem unconvertible_value_is_dropped:
  assumes "slotValue rslv lib r vars body ex resolved = Some (Ok v, resolved')"
    and "v \<noteq> VNil"
    and "fieldIdx < length reqValue" and "fieldIdx < length t"
    and "\<not> ConvertibleTo lib (typeOf v) (Type (t ! fieldIdx))"
  shows "setFieldResolve lib t reqValue fieldIdx v = Ok reqValue
     \<and> resolveFields rslv lib r vars body t ((fieldIdx, ex) # rest) reqValue resolved
       = resolveFields rslv lib r vars body t rest reqValue resolved'"
  using assms by (simp add: setFieldResolve_def)

theorem unconvertible_value_is_dropped_witness:
  "resolveFields (Resolve 0 plainLib noDependencies emptyRequest noVars []) plainLib emptyRequest
     noVars [] [idField] [(0, HeaderExtractor ''X-Id'' TString)] [VInt TInt 0] newResolved
   = Some (Ok [VInt TInt 0], newResolved)"
  using unconvertible_value_is_dropped
          [of "Resolve 0 plainLib noDependencies emptyRequest noVars []" plainLib emptyRequest
              noVars "[]" "HeaderExtractor ''X-Id'' TString" newResolved "VString []" newResolved
              0 "[VInt TInt 0]" "[idField]" "[]"]
  by (simp add: emptyRequest_def Get_def plainLib_def idField_def)

section \<open>Properties of the default error handler\<close>

text \<open>
  C6, as the code has it. An error of the path, query or header extractor and the error
  for a dependency that is not registered are errors of a type that
  \<^verbatim>\<open>defaultErrorHandler\<close> does not know: each gets status 500 and the same
  \<^verbatim>\<open>INTERNAL_ERROR\<close> response. \<^verbatim>\<open>Execute\<close> hands the error of a missing path variable
  to the error handler.
\<close>

theorem extraction_and_not_found_are_internal_errors:
  "(Extract lib (PathExtractor p ft) r vars body = Err e \<longrightarrow> defaultErrorHandler e = internalError)
   \<and> (Extract lib (QueryExtractor p ft) r vars body = Err e \<longrightarrow> defaultErrorHandler e = internalError)
   \<and> (Extract lib (HeaderExtractor p ft) r vars body = Err e \<longrightarrow> defaultErrorHandler e = internalError)
   \<and> (resolvedValues resolved name = None \<and> dependencies dr name = None \<longrightarrow>
        Resolve (Suc fuel) lib dr r vars body name resolved
          = Some (Err (Errorf (''dependency '' @ name @ '' not found'')), resolved)
        \<and> defaultErrorHandler (Errorf (''dependency '' @ name @ '' not found'')) = internalError)
   \<and> (vars p = None \<and> \<not> hasJSONBody ch \<and> extractors ch = (i, PathExtractor p ft) # rest \<longrightarrow>
        Execute fuel lib ch r vars dr
          = Some (ErrorHandled (Errorf (''path parameter '' @ p @ '' not found'')), newResolved))"
proof -
  have a: "Extract lib (PathExtractor p ft) r vars body = Err e \<longrightarrow> defaultErrorHandler e = internalError"
    by (auto simp: internalError_def dest: convertValue_Err_internal split: option.splits)
  have b: "Extract lib (QueryExtractor p ft) r vars body = Err e \<longrightarrow> defaultErrorHandler e = internalError"
    by (auto simp: Let_def dest: convertValue_Err_internal split: if_splits)
  have c: "Extract lib (HeaderExtractor p ft) r vars body = Err e \<longrightarrow> defaultErrorHandler e = internalError"
    by (auto simp: Let_def dest: convertValue_Err_internal split: if_splits)
  have d: "resolvedValues resolved name = None \<and> dependencies dr name = None \<longrightarrow>
        Resolve (Suc fuel) lib dr r vars body name resolved
          = Some (Err (Errorf (''dependency '' @ name @ '' not found'')), resolved)
        \<and> defaultErrorHandler (Errorf (''dependency '' @ name @ '' not found'')) = internalError"
    by (simp add: internalError_def)
  have e: "vars p = None \<and> \<not> hasJSONBody ch \<and> extractors ch = (i, PathExtractor p ft) # rest \<longrightarrow>
        Execute fuel lib ch r vars dr
          = Some (ErrorHandled (Errorf (''path parameter '' @ p @ '' not found'')), newResolved)"
    by (simp add: Execute_def newResolved_def)
  from a b c d e show ?thesis by blast
qed

theorem extraction_and_not_found_are_internal_errors_witness:
  "Extract plainLib (PathExtractor ''id'' TInt) emptyRequest [''id'' \<mapsto> ''x''] []
      = Err (NumError ''ParseInt'' ''x'' ErrSyntax)
   \<and> defaultErrorHandler (NumError ''ParseInt'' ''x'' ErrSyntax) = internalError
   \<and> Execute 0 plainLib idHandler emptyRequest noVars noDependencies
      = Some (ErrorHandled (Errorf ''path parameter id not found''), newResolved)
   \<and> Resolve (Suc 0) plainLib noDependencies emptyRequest noVars [] ''auth'' newResolved
      = Some (Err (Errorf ''dependency auth not found''), newResolved)
   \<and> defaultErrorHandler (Errorf ''dependency auth not found'') = internalError"
  using extraction_and_not_found_are_internal_errors
          [where lib = plainLib and p = "''id''" and ft = TInt and r = emptyRequest
             and vars = "[''id'' \<mapsto> ''x'']" and body = "[]"
             and e = "NumError ''ParseInt'' ''x'' ErrSyntax"
             and resolved = newResolved and name = "''auth''" and dr = noDependencies
             and fuel = 0 and ch = idHandler and i = 0 and rest = "[]"]
        extraction_and_not_found_are_internal_errors
          [where lib = plainLib and p = "''id''" and ft = TString and r = emptyRequest
             and vars = noVars and body = "[]"
             and e = "NumError ''ParseInt'' ''x'' ErrSyntax"
             and resolved = newResolved and name = "''auth''" and dr = noDependencies
             and fuel = 0 and ch = idHandler and i = 0 and rest = "[]"]
  by (simp add: ParseInt_def isDigit_def newResolved_def noDependencies_def noVars_def
        idHandler_def)

text \<open>
  C6, as the claim states it, fails: the error for a missing path variable is answered
  with status 500, which is no client error, and the error for an unregistered dependency
  gets the very same response.
\<close>

theorem extraction_error_is_not_client_error:
  "Extract plainLib (PathExtractor ''id'' TString) emptyRequest noVars []
      = Err (Errorf ''path parameter id not found'')
   \<and> fst (defaultErrorHandler (Errorf ''path parameter id not found'')) = 500
   \<and> Resolve (Suc 0) plainLib noDependencies emptyRequest noVars [] ''auth'' newResolved
      = Some (Err (Errorf ''dependency auth not found''), newResolved)
   \<and> defaultErrorHandler (Errorf ''dependency auth not found'')
      = defaultErrorHandler (Errorf ''path parameter id not found'')"
  by (simp add: noVars_def newResolved_def noDependencies_def)

section \<open>Properties of the streaming loop\<close>

text \<open>Once the context is done, no iterator gets anything written.\<close>

lemma callIter_done: "ctxDone env w \<Longrightarrow> callIter env p w = w"
  by (induction p) (auto simp: yieldFunc_def)

lemma callIter_cancelAfter:
  "callIter (cancelAfter n) (seqOf es) w =
     w\<lparr>written := written w @ take (n - flushes w) es,
       flushes := flushes w + min (n - flushes w) (length es),
       attempts := attempts w + min (n - flushes w) (length es)\<rparr>"
proof (induction es arbitrary: w)
  case Nil
  then show ?case by simp
next
  case (Cons e es)
  show ?case
  proof (cases "flushes w \<ge> n")
    case True
    then show ?thesis by (simp add: yieldFunc_def cancelAfter_def)
  next
    case False
    then obtain d where d: "n - flushes w = Suc d" by (cases "n - flushes w") auto
    then have d': "n - Suc (flushes w) = d" by simp
    have y: "yieldFunc (cancelAfter n) e w = (True, w\<lparr>written := written w @ [e], flushes := flushes w + 1,
                         attempts := attempts w + 1\<rparr>)"
      using False by (simp add: yieldFunc_def cancelAfter_def)
    show ?thesis
      by (simp add: y Cons.IH d d')
  qed
qed

text \<open>
  C3. The yield function checks the context before it writes: when the context is done
  it answers false and the transport stays as it is, whatever the iterator does next. An
  iterator that has no more events ends the loop, and a failed write ends it with the
  error printed. On a transport that is cancelled once \<open>n\<close> flushes have been made,
  exactly the first \<open>n\<close> events are written and no further write is attempted.
\<close>

theorem cancellation_wins_over_next_event:
  "(ctxDone env w \<longrightarrow> yieldFunc env e w = (False, w) \<and> callIter env p w = w)
   \<and> callIter env (seqOf []) w = w
   \<and> (\<not> ctxDone env w \<and> writeSSEEvent env w e = Some err \<longrightarrow>
        callIter env (seqOf (e # es)) w
          = w\<lparr>attempts := attempts w + 1, diagnostics := diagnostics w @ [err]\<rparr>)
   \<and> callIter (cancelAfter n) (seqOf es) newTransport
       = \<lparr>written = take n es, flushes = min n (length es), attempts = min n (length es),
          diagnostics = []\<rparr>"
proof -
  have a: "ctxDone env w \<longrightarrow> yieldFunc env e w = (False, w) \<and> callIter env p w = w"
    by (simp add: callIter_done yieldFunc_def)
  have b: "\<not> ctxDone env w \<and> writeSSEEvent env w e = Some err \<longrightarrow>
        callIter env (seqOf (e # es)) w
          = w\<lparr>attempts := attempts w + 1, diagnostics := diagnostics w @ [err]\<rparr>"
    by (simp add: yieldFunc_def)
  have c: "callIter (cancelAfter n) (seqOf es) newTransport
       = \<lparr>written = take n es, flushes = min n (length es), attempts = min n (length es),
          diagnostics = []\<rparr>"
    by (simp add: callIter_cancelAfter newTransport_def)
  from a b c show ?thesis by simp
qed

theorem cancellation_wins_over_next_event_witness:
  "callIter (cancelAfter 2) (seqOf [10, 20, 30 :: nat]) newTransport
     = \<lparr>written = [10, 20], flushes = 2, attempts = 2, diagnostics = []\<rparr>
   \<and> ctxDone (cancelAfter 2) \<lparr>written = [10, 20 :: nat], flushes = 2, attempts = 2, diagnostics = []\<rparr>
   \<and> yieldFunc (cancelAfter 2) 30 \<lparr>written = [10, 20 :: nat], flushes = 2, attempts = 2, diagnostics = []\<rparr>
     = (False, \<lparr>written = [10, 20], flushes = 2, attempts = 2, diagnostics = []\<rparr>)
   \<and> callIter failSecondWrite (seqOf [20, 30])
        \<lparr>written = [10 :: nat], flushes = 1, attempts = 1, diagnostics = []\<rparr>
     = \<lparr>written = [10], flushes = 1, attempts = 2, diagnostics = [OtherError ''broken pipe'']\<rparr>"
  using cancellation_wins_over_next_event
          [where env = "cancelAfter 2" and e = 30 and n = 2 and es = "[10, 20, 30]"
             and w = "\<lparr>written = [10, 20 :: nat], flushes = 2, attempts = 2, diagnostics = []\<rparr>"
             and p = Return and err = "OtherError []"]
        cancellation_wins_over_next_event
          [where env = failSecondWrite and e = 20 and n = 2 and es = "[30]"
             and w = "\<lparr>written = [10 :: nat], flushes = 1, attempts = 1, diagnostics = []\<rparr>"
             and p = Return and err = "OtherError ''broken pipe''"]
  by (simp add: cancelAfter_def failSecondWrite_def)

section \<open>Properties of a request: every dependency runs at most once\<close>

text \<open>The binding loops are instances of the general loop; the cases of \<^verbatim>\<open>Resolve\<close> and \<^verbatim>\<open>Execute\<close>.\<close>

lemma resolveFields_bindFields:
  "resolveFields rslv lib r vars body t slots reqValue resolved
     = bindFields (setFieldResolve lib t) (slotValue rslv lib r vars body) slots reqValue resolved"
  by (induction slots arbitrary: reqValue resolved)
     (auto split: option.splits result.splits prod.splits)

lemma executeFields_bindFields:
  "executeFields rslv lib r vars body t slots reqValue resolved
     = bindFields (setFieldExecute lib t) (slotValue rslv lib r vars body) slots reqValue resolved"
  by (induction slots arbitrary: reqValue resolved)
     (auto split: option.splits result.splits prod.splits)

lemma invokedNames_append [simp]:
  "invokedNames (xs @ ys) = invokedNames xs @ invokedNames ys"
  by (induction xs rule: invokedNames.induct) auto

lemma failures_append [simp]: "failures (xs @ ys) = failures xs @ failures ys"
  by (induction xs rule: failures.induct) auto

lemma trace_logEvent [simp]: "trace (logEvent ev st) = trace st @ [ev]"
  by (simp add: logEvent_def)

lemma resolvedValues_logEvent [simp]: "resolvedValues (logEvent ev st) = resolvedValues st"
  by (simp add: logEvent_def)

lemma Resolve_Suc_cases:
  assumes "Resolve (Suc k) lib dr r vars body n st = Some (res, st')"
  obtains
    (cached) v where "resolvedValues st n = Some v" "res = Ok v" "st' = st"
  | (notfound) "resolvedValues st n = None" "dependencies dr n = None"
      "res = Err (Errorf (''dependency '' @ n @ '' not found''))" "st' = st"
  | (fieldsfail) dep res1 where "resolvedValues st n = None" "dependencies dr n = Some dep"
      "resolveFields (Resolve k lib dr r vars body) lib r vars body (reqType dep) (extractors dep)
         (newStruct (reqType dep)) st = Some (res1, st')"
      "(\<exists>e. res1 = Err e \<and> res = Err e) \<or> (\<exists>m. res1 = Panic m \<and> res = Panic m)"
  | (invalid) dep rv st1 e where "resolvedValues st n = None" "dependencies dr n = Some dep"
      "resolveFields (Resolve k lib dr r vars body) lib r vars body (reqType dep) (extractors dep)
         (newStruct (reqType dep)) st = Some (Ok rv, st1)"
      "validateStruct lib (reqType dep) rv = Some e" "res = Err e"
      "st' = logEvent (Validated n (Some e)) st1"
  | (called) dep rv st1 where "resolvedValues st n = None" "dependencies dr n = Some dep"
      "resolveFields (Resolve k lib dr r vars body) lib r vars body (reqType dep) (extractors dep)
         (newStruct (reqType dep)) st = Some (Ok rv, st1)"
      "validateStruct lib (reqType dep) rv = None" "res = handlerFunc dep rv"
      "\<forall>v. res \<noteq> Ok v"
      "st' = logEvent (Invoked n res) (logEvent (Validated n None) st1)"
  | (stored) dep rv st1 v where "resolvedValues st n = None" "dependencies dr n = Some dep"
      "resolveFields (Resolve k lib dr r vars body) lib r vars body (reqType dep) (extractors dep)
         (newStruct (reqType dep)) st = Some (Ok rv, st1)"
      "validateStruct lib (reqType dep) rv = None" "handlerFunc dep rv = Ok v" "res = Ok v"
      "st' = (logEvent (Invoked n res) (logEvent (Validated n None) st1))
               \<lparr>resolvedValues := (resolvedValues st1)(n \<mapsto> v)\<rparr>"
proof (cases "resolvedValues st n")
  case (Some v)
  with assms show thesis by (auto intro: cached)
next
  case None
  note unc = this
  show thesis
  proof (cases "dependencies dr n")
    case None
    with unc assms show thesis by (auto intro: notfound)
  next
    case (Some dep)
    from assms unc Some obtain res1 st1 where
      loop: "resolveFields (Resolve k lib dr r vars body) lib r vars body (reqType dep)
               (extractors dep) (newStruct (reqType dep)) st = Some (res1, st1)"
      by (auto split: option.splits)
    show thesis
    proof (cases res1)
      case (Err e)
      with assms unc Some loop have "res = Err e" "st' = st1" by auto
      with unc Some loop Err show thesis by (auto intro: fieldsfail)
    next
      case (Panic m)
      with assms unc Some loop have "res = Panic m" "st' = st1" by auto
      with unc Some loop Panic show thesis by (auto intro: fieldsfail)
    next
      case (Ok rv)
      note okrv = this
      show thesis
      proof (cases "validateStruct lib (reqType dep) rv")
        case (Some e)
        with assms unc \<open>dependencies dr n = Some dep\<close> loop okrv
        have "res = Err e" "st' = logEvent (Validated n (Some e)) st1" by auto
        with unc \<open>dependencies dr n = Some dep\<close> loop okrv Some show thesis
          by (auto intro: invalid)
      next
        case None
        show thesis
        proof (cases "handlerFunc dep rv")
          case (Ok v)
          with assms unc \<open>dependencies dr n = Some dep\<close> loop okrv None
          have "res = Ok v"
            "st' = (logEvent (Invoked n res) (logEvent (Validated n None) st1))
               \<lparr>resolvedValues := (resolvedValues st1)(n \<mapsto> v)\<rparr>"
            by (auto simp: Let_def)
          with unc \<open>dependencies dr n = Some dep\<close> loop okrv None Ok show thesis
            by (auto intro: stored)
        next
          case (Err e)
          with assms unc \<open>dependencies dr n = Some dep\<close> loop okrv None
          have "res = handlerFunc dep rv" "\<forall>v. res \<noteq> Ok v"
            "st' = logEvent (Invoked n res) (logEvent (Validated n None) st1)"
            by (auto simp: Let_def)
          with unc \<open>dependencies dr n = Some dep\<close> loop okrv None show thesis
            by (auto intro: called)
        next
          case (Panic m)
          with assms unc \<open>dependencies dr n = Some dep\<close> loop okrv None
          have "res = handlerFunc dep rv" "\<forall>v. res \<noteq> Ok v"
            "st' = logEvent (Invoked n res) (logEvent (Validated n None) st1)"
            by (auto simp: Let_def)
          with unc \<open>dependencies dr n = Some dep\<close> loop okrv None show thesis
            by (auto intro: called)
        qed
      qed
    qed
  qed
qed

lemma Execute_cases:
  assumes "Execute fuel lib ch r vars dr = Some (out, st)"
  obtains
    (bodyfail) err where "out = ErrorHandled (WrapError ''failed to read request body: '' err)"
      "st = newResolved"
  | (fields) body res1 st1 where
      "executeFields (Resolve fuel lib dr r vars body) lib r vars body (reqType ch) (extractors ch)
         (newStruct (reqType ch)) newResolved = Some (res1, st1)"
      "case res1 of
         Err e \<Rightarrow> out = ErrorHandled e \<and> st = st1
       | Panic m \<Rightarrow> out = Panicked m \<and> st = st1
       | Ok rv \<Rightarrow> st = st1 \<and>
           (case validateStruct lib (reqType ch) rv of
              Some e \<Rightarrow> out = ErrorHandled e
            | None \<Rightarrow>
                (case handlerFunc ch rv of
                   Err e \<Rightarrow> out = ErrorHandled e
                 | Panic m \<Rightarrow> out = Panicked m
                 | Ok v \<Rightarrow> out = Responded v))"
proof (cases "\<exists>err. (if hasJSONBody ch then Body r else None) = Some (Inl err)")
  case True
  with assms show thesis
    by (auto simp: Execute_def Let_def newResolved_def intro: bodyfail)
next
  case False
  define body where
    "body = (case (if hasJSONBody ch then Body r else None) of Some (Inr b) \<Rightarrow> b | _ \<Rightarrow> [])"
  from assms False obtain res1 st1 where
    run: "executeFields (Resolve fuel lib dr r vars body) lib r vars body (reqType ch)
            (extractors ch) (newStruct (reqType ch)) newResolved = Some (res1, st1)"
    unfolding Execute_def Let_def body_def newResolved_def
    by (auto split: option.splits sum.splits result.splits prod.splits if_splits)
  from assms False run[unfolded body_def newResolved_def] have
    "case res1 of
         Err e \<Rightarrow> out = ErrorHandled e \<and> st = st1
       | Panic m \<Rightarrow> out = Panicked m \<and> st = st1
       | Ok rv \<Rightarrow> st = st1 \<and>
           (case validateStruct lib (reqType ch) rv of
              Some e \<Rightarrow> out = ErrorHandled e
            | None \<Rightarrow>
                (case handlerFunc ch rv of
                   Err e \<Rightarrow> out = ErrorHandled e
                 | Panic m \<Rightarrow> out = Panicked m
                 | Ok v \<Rightarrow> out = Responded v))"
    unfolding Execute_def Let_def
    by (auto split: option.splits sum.splits result.splits prod.splits if_splits)
  with run show thesis by (rule fields)
qed

text \<open>The invariant is kept by a slot, by the loop, and by \<^verbatim>\<open>Resolve\<close>.\<close>

lemma resolverOK_mono: "D' \<subseteq> D \<Longrightarrow> resolverOK S D rslv \<Longrightarrow> resolverOK S D' rslv"
  unfolding resolverOK_def by blast

lemma resolverOK_D:
  "resolverOK S D rslv \<Longrightarrow> d \<in> D \<Longrightarrow> resolvePre S st \<Longrightarrow> rslv d st = Some (res, st')
     \<Longrightarrow> resolvePost S st res st' \<and> (\<forall>v. res = Ok v \<longrightarrow> d \<in> dom (resolvedValues st'))"
  unfolding resolverOK_def by blast

lemma resolvePost_pre: "resolvePost S st (Ok v) st' \<Longrightarrow> resolvePre S st'"
  by (simp add: resolvePost_def resolvePre_def)

lemma resolvePost_refl: "resolvePre S st \<Longrightarrow> resolvePost S st res st"
  by (simp add: resolvePost_def resolvePre_def)

lemma resolvePost_trans:
  "resolvePost S st (Ok v) st1 \<Longrightarrow> resolvePost S st1 res st' \<Longrightarrow> resolvePost S st res st'"
  unfolding resolvePost_def by blast

lemma resolvePost_change:
  "resolvePost S st res st' \<Longrightarrow> \<forall>v. res' \<noteq> Ok v \<Longrightarrow> resolvePost S st res' st'"
  unfolding resolvePost_def by blast

lemma resolvePost_Ok:
  "resolvePost S st (Ok v) st' \<Longrightarrow> resolvePost S st (Ok v') st'"
  unfolding resolvePost_def by blast

lemma resolvePost_subset:
  "S \<subseteq> S' \<Longrightarrow> resolvePost S' st res st' \<Longrightarrow> resolvePost S st res st'"
  unfolding resolvePost_def by blast

lemma resolvePre_insert:
  "resolvePre S st \<Longrightarrow> resolvedValues st n = None \<Longrightarrow> resolvePre (insert n S) st"
  unfolding resolvePre_def by auto

lemma depNames_single_dep [simp]: "depNames [(i, DependencyExtractor d path ft)] = {d}"
  by (auto simp: depNames_def)

lemma depNames_Cons: "depNames (x # xs) = depNames [x] \<union> depNames xs"
  by (auto simp: depNames_def)

lemma depNames_Nil [simp]: "depNames [] = {}"
  by (simp add: depNames_def)

lemma directDep_depNames:
  "dependencies dr n = Some dep \<Longrightarrow> directDep dr n d \<longleftrightarrow> d \<in> depNames (extractors dep)"
  by (auto simp: directDep_def depNames_def)

lemma slotValue_post:
  assumes rs: "resolverOK S (depNames [(i, ex)]) rslv"
    and pre: "resolvePre S st"
    and run: "slotValue rslv lib r vars body ex st = Some (res, st')"
  shows "resolvePost S st res st'
         \<and> (\<forall>v. res = Ok v \<longrightarrow> depNames [(i, ex)] \<subseteq> dom (resolvedValues st'))"
proof (cases "\<exists>d path ft. ex = DependencyExtractor d path ft")
  case True
  then obtain d path ft where ex: "ex = DependencyExtractor d path ft" by blast
  from run ex obtain res0 where r0: "rslv d st = Some (res0, st')"
    and rel: "(\<exists>dv. res0 = Ok dv) \<or> ((\<forall>v. res \<noteq> Ok v) \<and> (\<forall>v. res0 \<noteq> Ok v))"
    by (auto split: option.splits result.splits prod.splits)
  from rs ex have "resolverOK S {d} rslv" by simp
  from resolverOK_D[OF this _ pre r0]
  have post0: "resolvePost S st res0 st'"
    and dd: "\<forall>v. res0 = Ok v \<longrightarrow> d \<in> dom (resolvedValues st')"
    by simp_all
  from rel show ?thesis
  proof
    assume "\<exists>dv. res0 = Ok dv"
    then obtain dv where dv: "res0 = Ok dv" by blast
    with dd have "d \<in> dom (resolvedValues st')" by simp
    moreover have "resolvePost S st res st'"
    proof (cases "\<exists>v. res = Ok v")
      case True
      then obtain v where "res = Ok v" by blast
      then show ?thesis using post0 dv by (auto intro: resolvePost_Ok)
    next
      case False
      then show ?thesis using post0 by (auto intro: resolvePost_change)
    qed
    ultimately show ?thesis using ex by simp
  next
    assume "(\<forall>v. res \<noteq> Ok v) \<and> (\<forall>v. res0 \<noteq> Ok v)"
    then show ?thesis using post0 by (auto intro: resolvePost_change)
  qed
next
  case False
  then have "st' = st" using run by (cases ex) auto
  moreover from False have "depNames [(i, ex)] = {}" by (auto simp: depNames_def)
  ultimately show ?thesis using pre by (simp add: resolvePost_refl)
qed

lemma bindFields_post:
  assumes rs: "resolverOK S (depNames slots) rslv"
    and pre: "resolvePre S st"
    and run: "bindFields setField (slotValue rslv lib r vars body) slots rv st = Some (res, st')"
  shows "resolvePost S st res st'
         \<and> (\<forall>v. res = Ok v \<longrightarrow> depNames slots \<subseteq> dom (resolvedValues st'))"
  using rs pre run
proof (induction slots arbitrary: rv st)
  case Nil
  then show ?case by (simp add: resolvePost_refl)
next
  case (Cons slot slots)
  obtain i ex where slot: "slot = (i, ex)" by (cases slot)
  from Cons.prems(3) slot obtain res1 st1 where
    sv: "slotValue rslv lib r vars body ex st = Some (res1, st1)"
    by (auto split: option.splits)
  have dn: "depNames (slot # slots) = depNames [(i, ex)] \<union> depNames slots"
    using depNames_Cons[of slot slots] slot by simp
  have rs1: "resolverOK S (depNames [(i, ex)]) rslv"
    using Cons.prems(1) dn by (auto intro: resolverOK_mono[rotated])
  have rs2: "resolverOK S (depNames slots) rslv"
    using Cons.prems(1) dn by (auto intro: resolverOK_mono[rotated])
  from slotValue_post[OF rs1 Cons.prems(2) sv]
  have p1: "resolvePost S st res1 st1"
    and d1: "\<forall>v. res1 = Ok v \<longrightarrow> depNames [(i, ex)] \<subseteq> dom (resolvedValues st1)"
    by simp_all
  have stop: "resolvePost S st res st' \<and> (\<forall>v. res = Ok v \<longrightarrow> depNames (slot # slots) \<subseteq> dom (resolvedValues st'))"
    if "st' = st1" "\<forall>v. res \<noteq> Ok v"
    using that p1 by (auto intro: resolvePost_change)
  show ?case
  proof (cases res1)
    case (Ok v)
    with p1 have pre1: "resolvePre S st1" by (simp add: resolvePost_pre)
    from Ok d1 have d1': "depNames [(i, ex)] \<subseteq> dom (resolvedValues st1)" by simp
    show ?thesis
    proof (cases "setField rv i v")
      case (Ok rv')
      with \<open>res1 = Ok v\<close> sv Cons.prems(3) slot
      have run': "bindFields setField (slotValue rslv lib r vars body) slots rv' st1 = Some (res, st')"
        by simp
      from Cons.IH[OF rs2 pre1 run']
      have post: "resolvePost S st1 res st'"
        and dd: "\<forall>v. res = Ok v \<longrightarrow> depNames slots \<subseteq> dom (resolvedValues st')"
        by simp_all
      from p1 \<open>res1 = Ok v\<close> post have "resolvePost S st res st'"
        by (auto intro: resolvePost_trans)
      moreover from post have "dom (resolvedValues st1) \<subseteq> dom (resolvedValues st')"
        by (simp add: resolvePost_def)
      with d1' dd have "\<forall>v. res = Ok v \<longrightarrow> depNames (slot # slots) \<subseteq> dom (resolvedValues st')"
        unfolding dn by blast
      ultimately show ?thesis by simp
    next
      case (Err e)
      with \<open>res1 = Ok v\<close> sv Cons.prems(3) slot have "st' = st1" "\<forall>v. res \<noteq> Ok v" by auto
      then show ?thesis by (rule stop)
    next
      case (Panic m)
      with \<open>res1 = Ok v\<close> sv Cons.prems(3) slot have "st' = st1" "\<forall>v. res \<noteq> Ok v" by auto
      then show ?thesis by (rule stop)
    qed
  next
    case (Err e)
    with sv Cons.prems(3) slot have "st' = st1" "\<forall>v. res \<noteq> Ok v" by auto
    then show ?thesis by (rule stop)
  next
    case (Panic m)
    with sv Cons.prems(3) slot have "st' = st1" "\<forall>v. res \<noteq> Ok v" by auto
    then show ?thesis by (rule stop)
  qed
qed

lemma Resolve_post:
  assumes "\<forall>m \<in> S. \<exists>d \<in> insert n S. directDep dr m d"
    and "resolvePre S st"
    and "Resolve k lib dr r vars body n st = Some (res, st')"
  shows "resolvePost S st res st' \<and> (\<forall>v. res = Ok v \<longrightarrow> resolvedValues st' n = Some v)"
  using assms
proof (induction k arbitrary: S n st res st')
  case 0
  then show ?case by simp
next
  case (Suc k)
  note blocked = Suc.prems(1) and pre = Suc.prems(2)
  let ?S = "insert n S"
  have loop: "resolvePost ?S st res1 st1
              \<and> (\<forall>v. res1 = Ok v \<longrightarrow> depNames (extractors dep) \<subseteq> dom (resolvedValues st1))"
    if unc: "resolvedValues st n = None" and dep: "dependencies dr n = Some dep"
      and run: "resolveFields (Resolve k lib dr r vars body) lib r vars body (reqType dep)
                  (extractors dep) (newStruct (reqType dep)) st = Some (res1, st1)"
    for dep res1 st1
  proof -
    have pre': "resolvePre ?S st" using pre unc by (rule resolvePre_insert)
    have ok: "resolverOK ?S (depNames (extractors dep)) (Resolve k lib dr r vars body)"
      unfolding resolverOK_def
    proof (intro ballI allI impI, elim conjE)
      fix d st0 res0 st0'
      assume d: "d \<in> depNames (extractors dep)" and p0: "resolvePre ?S st0"
        and r0: "Resolve k lib dr r vars body d st0 = Some (res0, st0')"
      have "directDep dr n d" using d dep by (simp add: directDep_depNames)
      with blocked have "\<forall>m \<in> ?S. \<exists>d' \<in> insert d ?S. directDep dr m d'" by blast
      from Suc.IH[OF this p0 r0]
      show "resolvePost ?S st0 res0 st0' \<and> (\<forall>v. res0 = Ok v \<longrightarrow> d \<in> dom (resolvedValues st0'))"
        by auto
    qed
    from bindFields_post[OF ok pre' run[unfolded resolveFields_bindFields]]
    show ?thesis .
  qed
  from Suc.prems(3) show ?case
  proof (cases rule: Resolve_Suc_cases)
    case (cached v)
    with pre show ?thesis by (simp add: resolvePost_refl)
  next
    case notfound
    with pre show ?thesis by (simp add: resolvePost_refl)
  next
    case (fieldsfail dep res1)
    from loop[OF fieldsfail(1,2,3)] have "resolvePost ?S st res1 st'" by simp
    then have "resolvePost ?S st res st'"
      using fieldsfail(4) by (auto intro: resolvePost_change)
    then have "resolvePost S st res st'" by (rule resolvePost_subset[rotated]) auto
    with fieldsfail(4) show ?thesis by auto
  next
    case (invalid dep rv st1 e)
    from loop[OF invalid(1,2,3)] have "resolvePost ?S st (Ok rv) st1" by simp
    then show ?thesis
      unfolding invalid(5,6) by (auto simp: resolvePost_def)
  next
    case (called dep rv st1)
    from loop[OF called(1,2,3)] have p: "resolvePost ?S st (Ok rv) st1" by simp
    then have "n \<notin> set (invokedNames (trace st1))"
      by (auto simp: resolvePost_def)
    with p called(6) show ?thesis
      unfolding called(7) by (auto simp: resolvePost_def)
  next
    case (stored dep rv st1 v)
    from loop[OF stored(1,2,3)] have p: "resolvePost ?S st (Ok rv) st1"
      and dn: "depNames (extractors dep) \<subseteq> dom (resolvedValues st1)" by simp_all
    from p have fresh: "n \<notin> set (invokedNames (trace st1))"
      by (auto simp: resolvePost_def)
    have "n \<notin> S"
    proof
      assume "n \<in> S"
      with blocked obtain d where d: "d \<in> ?S" "directDep dr n d" by blast
      then have "d \<in> depNames (extractors dep)" using stored(2) by (simp add: directDep_depNames)
      with dn have "d \<in> dom (resolvedValues st1)" by blast
      with d(1) p show False by (auto simp: resolvePost_def)
    qed
    with p fresh show ?thesis
      unfolding stored(6,7) by (auto simp: resolvePost_def)
  qed
qed

lemma distinct_count_le_1: "distinct xs \<Longrightarrow> count_list xs x \<le> 1"
  by (induction xs) auto

text \<open>
  C1. In the state in which \<^verbatim>\<open>Execute\<close> ends, and in the state in which a resolution
  that started with an empty cache ends, the \<^verbatim>\<open>Handle\<close> method of every dependency has
  been called at most once; a successful resolution leaves its result in the cache under
  the name of the dependency; and a name that is in the cache is resolved to the cached
  value with the state unchanged, so without a call.
\<close>

theorem dependency_runs_at_most_once:
  "(Execute fuel lib ch r vars dr = Some (out, st) \<longrightarrow>
      count_list (invokedNames (trace st)) name \<le> 1)
   \<and> (Resolve fuel lib dr r vars body name newResolved = Some (res, st) \<longrightarrow>
        count_list (invokedNames (trace st)) name' \<le> 1
        \<and> (\<forall>v. res = Ok v \<longrightarrow> resolvedValues st name = Some v))
   \<and> (resolvedValues st name = Some v \<longrightarrow>
        Resolve (Suc fuel) lib dr r vars body name st = Some (Ok v, st))"
proof -
  have pre: "resolvePre {} (newResolved :: 'a ResolvedDependencies)"
    by (simp add: resolvePre_def newResolved_def)
  have R: "resolvePost {} newResolved res0 st0 \<and> (\<forall>v. res0 = Ok v \<longrightarrow> d \<in> dom (resolvedValues st0))"
    if "Resolve fuel lib dr r vars body0 d newResolved = Some (res0, st0)" for body0 d res0 st0
    using Resolve_post[OF _ pre that] by auto
  have a: "Execute fuel lib ch r vars dr = Some (out, st) \<longrightarrow>
      count_list (invokedNames (trace st)) name \<le> 1"
  proof
    assume ex: "Execute fuel lib ch r vars dr = Some (out, st)"
    show "count_list (invokedNames (trace st)) name \<le> 1"
    proof (cases "\<exists>err. (if hasJSONBody ch then Body r else None) = Some (Inl err)")
      case True
      with ex have "st = \<lparr>resolvedValues = Map.empty, trace = []\<rparr>"
        by (auto simp: Execute_def Let_def)
      then show ?thesis by simp
    next
      case False
      define body where "body = (case (if hasJSONBody ch then Body r else None) of Some (Inr b) \<Rightarrow> b | _ \<Rightarrow> [])"
      from ex False obtain res1 where
        run: "executeFields (Resolve fuel lib dr r vars body) lib r vars body (reqType ch)
                (extractors ch) (newStruct (reqType ch)) newResolved = Some (res1, st)"
        unfolding Execute_def Let_def body_def newResolved_def
        by (auto split: option.splits sum.splits result.splits prod.splits if_splits)
      have ok: "resolverOK {} (depNames (extractors ch)) (Resolve fuel lib dr r vars body)"
        unfolding resolverOK_def
      proof (intro ballI allI impI, elim conjE)
        fix d st0 res0 st0'
        assume p0: "resolvePre {} st0"
          and r0: "Resolve fuel lib dr r vars body d st0 = Some (res0, st0')"
        from Resolve_post[OF _ p0 r0]
        show "resolvePost {} st0 res0 st0' \<and> (\<forall>v. res0 = Ok v \<longrightarrow> d \<in> dom (resolvedValues st0'))"
          by auto
      qed
      from bindFields_post[OF ok pre run[unfolded executeFields_bindFields]]
      have "distinct (invokedNames (trace st))" by (simp add: resolvePost_def)
      then show ?thesis by (rule distinct_count_le_1)
    qed
  qed
  have b: "Resolve fuel lib dr r vars body name newResolved = Some (res, st) \<longrightarrow>
        count_list (invokedNames (trace st)) name' \<le> 1
        \<and> (\<forall>v. res = Ok v \<longrightarrow> resolvedValues st name = Some v)"
  proof
    assume "Resolve fuel lib dr r vars body name newResolved = Some (res, st)"
    from Resolve_post[OF _ pre this]
    have d: "distinct (invokedNames (trace st))"
      and e: "\<forall>v. res = Ok v \<longrightarrow> resolvedValues st name = Some v"
      by (simp_all add: resolvePost_def)
    from distinct_count_le_1[OF d, of name'] e
    show "count_list (invokedNames (trace st)) name' \<le> 1
        \<and> (\<forall>v. res = Ok v \<longrightarrow> resolvedValues st name = Some v)"
      by simp
  qed
  have c: "resolvedValues st name = Some v \<longrightarrow>
        Resolve (Suc fuel) lib dr r vars body name st = Some (Ok v, st)"
    by simp
  from a b c show ?thesis by simp
qed

text \<open>The scenario of the specification, evaluated.\<close>

lemma plainLib_simps:
  "validatorStruct plainLib t v = Valid"
  "ConvertibleTo plainLib t1 t2 = (t1 = t2)"
  "Convert plainLib x t1 = x"
  by (simp_all add: plainLib_def)

lemma twoDependencies_simps:
  "dependencies twoDependencies ''A'' = Some depA"
  "dependencies twoDependencies ''B'' = Some depB"
  by (simp_all add: twoDependencies_def)

lemma compile_xy: "compileStructExtractors (reqType xyHandler) = (extractors xyHandler, validators xyHandler)"
  by (simp add: compileStructExtractors_def xyHandler_def fieldExtractor_def TagGet_def)

lemma resolve_A:
  "Resolve (Suc fuel) plainLib twoDependencies emptyRequest noVars [] ''A'' newResolved
     = Some (Ok (VString ''a''), resolvedA)"
  by (simp add: twoDependencies_simps plainLib_simps depA_def newResolved_def resolvedA_def
        validateStruct_def logEvent_def newStruct_def Let_def)

lemma resolve_A_cached:
  "Resolve (Suc fuel) plainLib twoDependencies emptyRequest noVars [] ''A'' resolvedA
     = Some (Ok (VString ''a''), resolvedA)"
  by (simp add: resolvedA_def)

lemma resolve_B:
  "Resolve (Suc (Suc fuel)) plainLib twoDependencies emptyRequest noVars [] ''B'' resolvedA
     = Some (Ok (VString ''b''), resolvedAB)"
proof -
  have u: "resolvedValues resolvedA ''B'' = None" by (simp add: resolvedA_def)
  have f: "resolveFields (Resolve (Suc fuel) plainLib twoDependencies emptyRequest noVars [])
             plainLib emptyRequest noVars [] (reqType depB) (extractors depB)
             (newStruct (reqType depB)) resolvedA = Some (Ok [VString ''a''], resolvedA)"
    unfolding depB_def
    by (simp add: resolve_A_cached newStruct_def setFieldResolve_def plainLib_simps
          del: Resolve.simps)
  show ?thesis
    unfolding Resolve.simps(2)[of "Suc fuel"]
    by (simp add: u twoDependencies_simps f validateStruct_def plainLib_simps del: Resolve.simps)
       (simp add: depB_def logEvent_def resolvedA_def resolvedAB_def Let_def)
qed

lemma resolve_B_fresh:
  "Resolve (Suc (Suc fuel)) plainLib twoDependencies emptyRequest noVars [] ''B'' newResolved
     = Some (Ok (VString ''b''), resolvedAB)"
proof -
  have u: "resolvedValues (newResolved :: int ResolvedDependencies) ''B'' = None"
    by (simp add: newResolved_def)
  have f: "resolveFields (Resolve (Suc fuel) plainLib twoDependencies emptyRequest noVars [])
             plainLib emptyRequest noVars [] (reqType depB) (extractors depB)
             (newStruct (reqType depB)) newResolved = Some (Ok [VString ''a''], resolvedA)"
    unfolding depB_def
    by (simp add: resolve_A newStruct_def setFieldResolve_def plainLib_simps
          del: Resolve.simps)
  show ?thesis
    unfolding Resolve.simps(2)[of "Suc fuel"]
    by (simp add: u twoDependencies_simps f validateStruct_def plainLib_simps del: Resolve.simps)
       (simp add: depB_def logEvent_def resolvedA_def resolvedAB_def Let_def)
qed

lemma execute_xy:
  "Execute (Suc (Suc fuel)) plainLib xyHandler emptyRequest noVars twoDependencies
    = Some (Responded (VSlice TString [VString ''a'', VString ''b'']), resolvedAB)"
proof -
  have f: "executeFields (Resolve (Suc (Suc fuel)) plainLib twoDependencies emptyRequest noVars [])
             plainLib emptyRequest noVars [] (reqType xyHandler) (extractors xyHandler)
             (newStruct (reqType xyHandler)) newResolved
           = Some (Ok [VString ''a'', VString ''b''], resolvedAB)"
    unfolding xyHandler_def
    by (simp add: resolve_A resolve_B newStruct_def setFieldExecute_def plainLib_simps
          del: Resolve.simps)
  have b: "hasJSONBody xyHandler = False" by (simp add: xyHandler_def)
  show ?thesis
    unfolding Execute_def
    by (simp add: b f[unfolded newResolved_def] validateStruct_def plainLib_simps del: Resolve.simps)
       (simp add: xyHandler_def)
qed

text \<open>
  C1, at the scenario: \<open>A\<close> is referenced by field \<open>X\<close> and by \<open>B\<close>, on which field
  \<open>Y\<close> depends; \<open>A\<close> and \<open>B\<close> are each called once.
\<close>

theorem dependency_runs_at_most_once_witness:
  "Execute (Suc (Suc 0)) plainLib xyHandler emptyRequest noVars twoDependencies
     = Some (Responded (VSlice TString [VString ''a'', VString ''b'']), resolvedAB)
   \<and> invokedNames (trace resolvedAB) = [''A'', ''B'']
   \<and> count_list (invokedNames (trace resolvedAB)) ''A'' \<le> 1
   \<and> Resolve (Suc (Suc 0)) plainLib twoDependencies emptyRequest noVars [] ''B'' newResolved
       = Some (Ok (VString ''b''), resolvedAB)
   \<and> resolvedValues resolvedAB ''B'' = Some (VString ''b'')
   \<and> resolvedValues resolvedAB ''A'' = Some (VString ''a'')
   \<and> Resolve (Suc (Suc (Suc 0))) plainLib twoDependencies emptyRequest noVars [] ''A'' resolvedAB
       = Some (Ok (VString ''a''), resolvedAB)"
  using dependency_runs_at_most_once
          [where fuel = "Suc (Suc 0)" and lib = plainLib and ch = xyHandler and r = emptyRequest
             and vars = noVars and dr = twoDependencies
             and out = "Responded (VSlice TString [VString ''a'', VString ''b''])"
             and st = resolvedAB and name = "''A''" and body = "[]" and name' = "''A''"
             and res = "Ok (VString ''a'')" and v = "VString ''a''"]
        dependency_runs_at_most_once
          [where fuel = "Suc (Suc 0)" and lib = plainLib and ch = xyHandler and r = emptyRequest
             and vars = noVars and dr = twoDependencies
             and out = "Responded (VSlice TString [VString ''a'', VString ''b''])"
             and st = resolvedAB and name = "''B''" and body = "[]" and name' = "''A''"
             and res = "Ok (VString ''b'')" and v = "VString ''b''"]
  by (simp add: execute_xy resolve_B_fresh resolvedAB_def del: Resolve.simps)

section \<open>Properties of a request: errors of dependencies\<close>

lemma failsWith_not_Err:
  "failsWith st res st' \<Longrightarrow> failures (trace st) = [] \<Longrightarrow> \<forall>e. res \<noteq> Err e \<Longrightarrow> failures (trace st') = []"
  unfolding failsWith_def by (cases "failures (trace st')") auto

lemma slotValue_failsWith:
  assumes rs: "\<And>d st res st'. rslv d st = Some (res, st') \<Longrightarrow> failsWith st res st'"
    and run: "slotValue rslv lib r vars body ex st = Some (res, st')"
  shows "failsWith st res st'"
proof (cases "\<exists>d path ft. ex = DependencyExtractor d path ft")
  case True
  then obtain d path ft where ex: "ex = DependencyExtractor d path ft" by blast
  from run ex obtain res0 where r0: "rslv d st = Some (res0, st')"
    and rel: "(\<exists>dv. res0 = Ok dv) \<or> (\<exists>e. res0 = Err e \<and> res = Err e) \<or> (\<exists>m. res0 = Panic m)"
    by (auto split: option.splits result.splits prod.splits)
  from rs[OF r0] have f0: "failsWith st res0 st'" .
  show ?thesis
  proof (cases "\<exists>e. res0 = Err e")
    case True
    with rel f0 show ?thesis by (auto simp: failsWith_def)
  next
    case False
    with f0 have "failures (trace st) = [] \<longrightarrow> failures (trace st') = []"
      using failsWith_not_Err by blast
    then show ?thesis by (simp add: failsWith_def)
  qed
next
  case False
  then have "st' = st" using run by (cases ex) auto
  then show ?thesis by (simp add: failsWith_def)
qed

lemma bindFields_failsWith:
  assumes rs: "\<And>d st res st'. rslv d st = Some (res, st') \<Longrightarrow> failsWith st res st'"
    and run: "bindFields setField (slotValue rslv lib r vars body) slots rv st = Some (res, st')"
    and nf: "failures (trace st) = []"
  shows "\<forall>e \<in> set (failures (trace st')). res = Err e"
  using run nf
proof (induction slots arbitrary: rv st)
  case Nil
  then show ?case by auto
next
  case (Cons slot slots)
  obtain i ex where slot: "slot = (i, ex)" by (cases slot)
  from Cons.prems(1) slot obtain res1 st1 where
    sv: "slotValue rslv lib r vars body ex st = Some (res1, st1)"
    by (auto split: option.splits)
  from slotValue_failsWith[OF rs sv] have f1: "failsWith st res1 st1" .
  show ?case
  proof (cases res1)
    case (Ok v)
    with f1 Cons.prems(2) have nf1: "failures (trace st1) = []"
      using failsWith_not_Err by blast
    show ?thesis
    proof (cases "setField rv i v")
      case (Ok rv')
      with \<open>res1 = Ok v\<close> sv Cons.prems(1) slot
      have "bindFields setField (slotValue rslv lib r vars body) slots rv' st1 = Some (res, st')"
        by simp
      from Cons.IH[OF this nf1] show ?thesis .
    next
      case (Err e)
      with \<open>res1 = Ok v\<close> sv Cons.prems(1) slot have "st' = st1" by auto
      with nf1 show ?thesis by simp
    next
      case (Panic m)
      with \<open>res1 = Ok v\<close> sv Cons.prems(1) slot have "st' = st1" by auto
      with nf1 show ?thesis by simp
    qed
  next
    case (Err e)
    with sv Cons.prems(1) slot have "st' = st1" "res = Err e" by auto
    with f1 Err Cons.prems(2) show ?thesis by (auto simp: failsWith_def)
  next
    case (Panic m)
    with sv Cons.prems(1) slot have "st' = st1" by auto
    moreover from f1 Panic Cons.prems(2) have "failures (trace st1) = []"
      using failsWith_not_Err by blast
    ultimately show ?thesis by simp
  qed
qed

lemma Resolve_failsWith:
  "Resolve k lib dr r vars body n st = Some (res, st') \<Longrightarrow> failsWith st res st'"
proof (induction k arbitrary: n st res st')
  case 0
  then show ?case by simp
next
  case (Suc k)
  have loop: "\<forall>e \<in> set (failures (trace st1)). res1 = Err e"
    if "resolveFields (Resolve k lib dr r vars body) lib r vars body t slots rv st = Some (res1, st1)"
      and "failures (trace st) = []"
    for t slots rv res1 st1
    using bindFields_failsWith[OF Suc.IH that(1)[unfolded resolveFields_bindFields] that(2)] .
  from Suc.prems show ?case
  proof (cases rule: Resolve_Suc_cases)
    case (cached v)
    then show ?thesis by (simp add: failsWith_def)
  next
    case notfound
    then show ?thesis by (simp add: failsWith_def)
  next
    case (fieldsfail dep res1)
    with loop[OF fieldsfail(3)] show ?thesis by (auto simp: failsWith_def)
  next
    case (invalid dep rv st1 e)
    with loop[OF invalid(3)] show ?thesis by (auto simp: failsWith_def)
  next
    case (called dep rv st1)
    from loop[OF called(3)] have "failures (trace st) = [] \<longrightarrow> failures (trace st1) = []"
      by (cases "failures (trace st1)") auto
    with called(6) show ?thesis
      unfolding called(7) by (cases res) (auto simp: failsWith_def)
  next
    case (stored dep rv st1 v)
    from loop[OF stored(3)] have "failures (trace st) = [] \<longrightarrow> failures (trace st1) = []"
      by (cases "failures (trace st1)") auto
    then show ?thesis
      unfolding stored(6,7) by (auto simp: failsWith_def)
  qed
qed

text \<open>
  C2. When, in the course of a resolution or of \<^verbatim>\<open>Execute\<close>, the validator or the
  \<^verbatim>\<open>Handle\<close> method of a dependency at any depth returns an error, the resolution
  returns that very error and \<^verbatim>\<open>Execute\<close> hands that very error to the error handler.
\<close>

theorem dependency_errors_reach_handler_unmodified:
  "(Resolve fuel lib dr r vars body name newResolved = Some (res, st)
      \<and> e \<in> set (failures (trace st)) \<longrightarrow> res = Err e)
   \<and> (Execute fuel lib ch r vars dr = Some (out, st) \<and> e \<in> set (failures (trace st))
        \<longrightarrow> out = ErrorHandled e)"
proof -
  have nf: "failures (trace (newResolved :: 'a ResolvedDependencies)) = []"
    by (simp add: newResolved_def)
  have a: "Resolve fuel lib dr r vars body name newResolved = Some (res, st)
      \<and> e \<in> set (failures (trace st)) \<longrightarrow> res = Err e"
    using Resolve_failsWith[of fuel lib dr r vars body name newResolved res st] nf
    by (auto simp: failsWith_def)
  have b: "Execute fuel lib ch r vars dr = Some (out, st) \<and> e \<in> set (failures (trace st))
        \<longrightarrow> out = ErrorHandled e"
  proof (intro impI, elim conjE)
    assume ex: "Execute fuel lib ch r vars dr = Some (out, st)"
      and e: "e \<in> set (failures (trace st))"
    from ex show "out = ErrorHandled e"
    proof (cases rule: Execute_cases)
      case (bodyfail err)
      with e nf show ?thesis by simp
    next
      case (fields body res1 st1)
      from bindFields_failsWith[OF Resolve_failsWith fields(1)[unfolded executeFields_bindFields] nf]
      have "\<forall>e \<in> set (failures (trace st1)). res1 = Err e" .
      with fields(2) e show ?thesis
        by (cases res1) (auto split: option.splits result.splits)
    qed
  qed
  from a b show ?thesis by simp
qed

lemma strictLib_simps:
  "validatorStruct strictLib t v
     = (if v = [VString []] then ValidationErrors [(''Token'', ''required'')] else Valid)"
  "ConvertibleTo strictLib t1 t2 = (t1 = t2)"
  "Convert strictLib x t1 = x"
  by (simp_all add: strictLib_def plainLib_def)

lemma authDependencies_simps:
  "dependencies authDependencies ''auth'' = Some depAuth"
  "dependencies authDependencies ''rate_limit'' = Some depRateLimit"
  by (simp_all add: authDependencies_def)

lemma resolve_auth_strict:
  "Resolve (Suc fuel) strictLib authDependencies emptyRequest noVars [] ''auth'' newResolved
     = Some (Err tokenRequired, authInvalid)"
  by (simp add: authDependencies_simps strictLib_simps depAuth_def newResolved_def authInvalid_def
        validateStruct_def logEvent_def newStruct_def Let_def emptyRequest_def Get_def
        setFieldResolve_def NewValidationError_def tokenRequired_def)

lemma resolve_rate_limit_strict:
  "Resolve (Suc (Suc fuel)) strictLib authDependencies emptyRequest noVars [] ''rate_limit''
     newResolved = Some (Err tokenRequired, authInvalid)"
proof -
  have u: "resolvedValues (newResolved :: int ResolvedDependencies) ''rate_limit'' = None"
    by (simp add: newResolved_def)
  have f: "resolveFields (Resolve (Suc fuel) strictLib authDependencies emptyRequest noVars [])
             strictLib emptyRequest noVars [] (reqType depRateLimit) (extractors depRateLimit)
             (newStruct (reqType depRateLimit)) newResolved = Some (Err tokenRequired, authInvalid)"
    unfolding depRateLimit_def
    by (simp add: resolve_auth_strict del: Resolve.simps)
  show ?thesis
    unfolding Resolve.simps(2)[of "Suc fuel"]
    by (simp add: u authDependencies_simps f del: Resolve.simps)
qed

lemma execute_post_strict:
  "Execute (Suc (Suc fuel)) strictLib postHandler emptyRequest noVars authDependencies
     = Some (ErrorHandled tokenRequired, authInvalid)"
proof -
  have f: "executeFields (Resolve (Suc (Suc fuel)) strictLib authDependencies emptyRequest noVars [])
             strictLib emptyRequest noVars [] (reqType postHandler) (extractors postHandler)
             (newStruct (reqType postHandler)) newResolved
           = Some (Err tokenRequired, authInvalid)"
    unfolding postHandler_def
    by (simp add: resolve_rate_limit_strict del: Resolve.simps)
  have b: "hasJSONBody postHandler = False" by (simp add: postHandler_def)
  show ?thesis
    unfolding Execute_def
    by (simp add: b f[unfolded newResolved_def] del: Resolve.simps)
qed

lemma resolve_auth_plain:
  "Resolve (Suc fuel) plainLib authDependencies emptyRequest noVars [] ''auth'' newResolved
     = Some (Err (APIError 401 [] ''Token required'' []), authRefused)"
  by (simp add: authDependencies_simps plainLib_simps depAuth_def newResolved_def authRefused_def
        validateStruct_def logEvent_def newStruct_def Let_def emptyRequest_def Get_def
        setFieldResolve_def)

lemma resolve_rate_limit_plain:
  "Resolve (Suc (Suc fuel)) plainLib authDependencies emptyRequest noVars [] ''rate_limit''
     newResolved = Some (Err (APIError 401 [] ''Token required'' []), authRefused)"
proof -
  have u: "resolvedValues (newResolved :: int ResolvedDependencies) ''rate_limit'' = None"
    by (simp add: newResolved_def)
  have f: "resolveFields (Resolve (Suc fuel) plainLib authDependencies emptyRequest noVars [])
             plainLib emptyRequest noVars [] (reqType depRateLimit) (extractors depRateLimit)
             (newStruct (reqType depRateLimit)) newResolved
           = Some (Err (APIError 401 [] ''Token required'' []), authRefused)"
    unfolding depRateLimit_def
    by (simp add: resolve_auth_plain del: Resolve.simps)
  show ?thesis
    unfolding Resolve.simps(2)[of "Suc fuel"]
    by (simp add: u authDependencies_simps f del: Resolve.simps)
qed

text \<open>
  C2, at a request without token: the validation error of \<open>auth\<close>, two levels below the
  handler, reaches the error handler with its field violations; with a validator that
  accepts the empty token, the error 401 of the \<^verbatim>\<open>Handle\<close> method of \<open>auth\<close> is the
  result of resolving \<open>rate_limit\<close>.
\<close>

theorem dependency_errors_reach_handler_unmodified_witness:
  "Execute (Suc (Suc 0)) strictLib postHandler emptyRequest noVars authDependencies
     = Some (ErrorHandled tokenRequired, authInvalid)
   \<and> tokenRequired \<in> set (failures (trace authInvalid))
   \<and> Resolve (Suc (Suc 0)) plainLib authDependencies emptyRequest noVars [] ''rate_limit''
       newResolved = Some (Err (APIError 401 [] ''Token required'' []), authRefused)
   \<and> APIError 401 [] ''Token required'' [] \<in> set (failures (trace authRefused))"
  using dependency_errors_reach_handler_unmodified
          [where fuel = "Suc (Suc 0)" and lib = strictLib and ch = postHandler
             and r = emptyRequest and vars = noVars and dr = authDependencies
             and out = "ErrorHandled tokenRequired" and st = authInvalid and e = tokenRequired
             and body = "[]" and name = "''rate_limit''" and res = "Err tokenRequired"]
        dependency_errors_reach_handler_unmodified
          [where fuel = "Suc (Suc 0)" and lib = plainLib and ch = postHandler
             and r = emptyRequest and vars = noVars and dr = authDependencies
             and out = "ErrorHandled (APIError 401 [] ''Token required'' [])" and st = authRefused
             and e = "APIError 401 [] ''Token required'' []"
             and body = "[]" and name = "''rate_limit''"
             and res = "Err (APIError 401 [] ''Token required'' [])"]
  by (simp add: execute_post_strict resolve_rate_limit_plain authInvalid_def authRefused_def
        del: Resolve.simps)

section \<open>Properties of a request: the order of the slots\<close>

text \<open>The loop without state: its result in terms of the slots, whatever their order.\<close>

lemma setFieldExecute_decide: "setFieldExecute lib t = applyDecision (decideExecute lib t)"
  by (intro ext) (simp add: setFieldExecute_def applyDecision_def decideExecute_def)

lemma setFieldResolve_decide: "setFieldResolve lib t = applyDecision (decideResolve lib t)"
  by (intro ext) (simp add: setFieldResolve_def applyDecision_def decideResolve_def)

lemma pureFields_Ok_iff:
  assumes "distinct (map fst slots)"
  shows "pureFields (applyDecision dec) pv slots rv = Ok rv' \<longleftrightarrow>
           (\<forall>slot \<in> set slots. slotStores dec (length rv) pv slot)
           \<and> rv' = map (storedField dec pv (map_of slots) rv) [0..<length rv]"
  using assms
proof (induction slots arbitrary: rv)
  case Nil
  then show ?case by (auto simp: storedField_def map_nth)
next
  case (Cons slot slots)
  obtain i ex where slot: "slot = (i, ex)" by (cases slot)
  from Cons.prems slot have dist: "distinct (map fst slots)" and fresh: "i \<notin> fst ` set slots"
    by auto
  then have mo: "map_of slots i = None" by (simp add: map_of_eq_None_iff)
  have step: "pureFields (applyDecision dec) pv (slot # slots) rv = Ok rv' \<longleftrightarrow>
           (\<forall>slot \<in> set (slot # slots). slotStores dec (length rv) pv slot)
           \<and> rv' = map (storedField dec pv (map_of (slot # slots)) rv) [0..<length rv]"
    if run: "pureFields (applyDecision dec) pv (slot # slots) rv
               = pureFields (applyDecision dec) pv slots rv1"
      and len: "length rv1 = length rv"
      and good: "slotStores dec (length rv) pv slot"
      and fld: "\<And>j. j < length rv \<Longrightarrow> storedField dec pv (map_of (slot # slots)) rv j
                  = storedField dec pv (map_of slots) rv1 j"
    for rv1
  proof -
    have "map (storedField dec pv (map_of (slot # slots)) rv) [0..<length rv]
            = map (storedField dec pv (map_of slots) rv1) [0..<length rv1]"
      using fld len by simp
    moreover have "(\<forall>slot \<in> set (slot # slots). slotStores dec (length rv) pv slot)
            \<longleftrightarrow> (\<forall>slot \<in> set slots. slotStores dec (length rv1) pv slot)"
      using good len by simp
    ultimately show ?thesis
      using Cons.IH[OF dist, of rv1] run by simp
  qed
  have stop: "pureFields (applyDecision dec) pv (slot # slots) rv = Ok rv' \<longleftrightarrow>
           (\<forall>slot \<in> set (slot # slots). slotStores dec (length rv) pv slot)
           \<and> rv' = map (storedField dec pv (map_of (slot # slots)) rv) [0..<length rv]"
    if "\<forall>x. pureFields (applyDecision dec) pv (slot # slots) rv \<noteq> Ok x"
      and "\<not> slotStores dec (length rv) pv slot"
    using that by simp
  show ?case
  proof (cases "pv ex")
    case (Ok v)
    show ?thesis
    proof (cases "dec (length rv) i v")
      case Skip
      show ?thesis
      proof (rule step[of rv])
        show "pureFields (applyDecision dec) pv (slot # slots) rv
               = pureFields (applyDecision dec) pv slots rv"
          using slot Ok Skip by (simp add: applyDecision_def)
        show "slotStores dec (length rv) pv slot"
          using slot Ok Skip by (simp add: slotStores_def)
        show "storedField dec pv (map_of (slot # slots)) rv j
                = storedField dec pv (map_of slots) rv j" if "j < length rv" for j
          using slot Ok Skip mo by (simp add: storedField_def)
      qed simp
    next
      case (Store w)
      let ?rv1 = "rv[i := w]"
      show ?thesis
      proof (rule step[of ?rv1])
        show "pureFields (applyDecision dec) pv (slot # slots) rv
               = pureFields (applyDecision dec) pv slots ?rv1"
          using slot Ok Store by (simp add: applyDecision_def)
        show "slotStores dec (length rv) pv slot"
          using slot Ok Store by (simp add: slotStores_def)
        show "storedField dec pv (map_of (slot # slots)) rv j
                = storedField dec pv (map_of slots) ?rv1 j" if "j < length rv" for j
          using slot Ok Store mo that
          by (auto simp: storedField_def nth_list_update
                split: option.splits result.splits decision.splits)
      qed simp
    next
      case (Fail m)
      show ?thesis
      proof (rule stop)
        show "\<forall>x. pureFields (applyDecision dec) pv (slot # slots) rv \<noteq> Ok x"
          using slot Ok Fail by (auto simp: applyDecision_def)
        show "\<not> slotStores dec (length rv) pv slot"
          using slot Ok Fail by (simp add: slotStores_def)
      qed
    qed
  next
    case (Err e)
    show ?thesis
      by (rule stop) (use slot Err in \<open>simp_all add: slotStores_def\<close>)
  next
    case (Panic m)
    show ?thesis
      by (rule stop) (use slot Panic in \<open>simp_all add: slotStores_def\<close>)
  qed
qed

lemma pureFields_order:
  assumes "distinct (map fst slots)" and "distinct (map fst slots')" and "set slots' = set slots"
    and "pureFields (applyDecision dec) pv slots rv = Ok rv'"
  shows "pureFields (applyDecision dec) pv slots' rv = Ok rv'"
proof -
  have "map_of slots' = map_of slots"
    using assms(1-3) by (simp add: map_of_inject_set)
  with assms(3,4) show ?thesis
    unfolding pureFields_Ok_iff[OF assms(1)] pureFields_Ok_iff[OF assms(2)] by simp
qed

text \<open>The result of a dependency is unique.\<close>

lemma pureSlot_cong:
  "\<forall>d \<in> depNames [(i, ex)]. f d = g d \<Longrightarrow> pureSlot f lib r vars body ex = pureSlot g lib r vars body ex"
  by (cases ex) auto

lemma pureFields_cong:
  "\<forall>slot \<in> set slots. pv (snd slot) = pv' (snd slot)
     \<Longrightarrow> pureFields setField pv slots rv = pureFields setField pv' slots rv"
  by (induction slots arbitrary: rv) (auto split: result.splits)

lemma depNames_member: "(i, ex) \<in> set slots \<Longrightarrow> depNames [(i, ex)] \<subseteq> depNames slots"
  by (auto simp: depNames_def)

lemma pureFields_pureSlot_cong:
  assumes "\<forall>d \<in> depNames slots. f d = g d"
  shows "pureFields setField (pureSlot f lib r vars body) slots rv
           = pureFields setField (pureSlot g lib r vars body) slots rv"
proof (rule pureFields_cong, rule ballI)
  fix slot assume m: "slot \<in> set slots"
  obtain i ex where slot: "slot = (i, ex)" by (cases slot)
  with m assms have "\<forall>d \<in> depNames [(i, ex)]. f d = g d"
    using depNames_member by blast
  then show "pureSlot f lib r vars body (snd slot) = pureSlot g lib r vars body (snd slot)"
    using slot by (simp add: pureSlot_cong)
qed

lemma depValue_det:
  "depValue lib dr r vars body n v \<Longrightarrow> depValue lib dr r vars body n v' \<Longrightarrow> v = v'"
proof (induction arbitrary: v' rule: depValue.induct)
  case (1 n dep f rv v)
  from "1.prems" obtain f' rv' where
    sub: "\<forall>d \<in> depNames (extractors dep). depValue lib dr r vars body d (f' d)"
    and run: "pureFields (setFieldResolve lib (reqType dep)) (pureSlot f' lib r vars body)
                (extractors dep) (newStruct (reqType dep)) = Ok rv'"
    and h: "handlerFunc dep rv' = Ok v'"
    using \<open>dependencies dr n = Some dep\<close> by (auto elim: depValue.cases)
  have same: "\<forall>d \<in> depNames (extractors dep). f d = f' d"
    using "1.IH" sub by blast
  have "pureFields (setFieldResolve lib (reqType dep)) (pureSlot f lib r vars body)
          (extractors dep) (newStruct (reqType dep))
        = pureFields (setFieldResolve lib (reqType dep)) (pureSlot f' lib r vars body)
            (extractors dep) (newStruct (reqType dep))"
    using same by (rule pureFields_pureSlot_cong)
  with \<open>pureFields (setFieldResolve lib (reqType dep)) (pureSlot f lib r vars body)
          (extractors dep) (newStruct (reqType dep)) = Ok rv\<close> run
  have "rv = rv'" by simp
  with \<open>handlerFunc dep rv = Ok v\<close> h show ?case by simp
qed

lemma depResult_eq: "depValue lib dr r vars body d v \<Longrightarrow> depResult lib dr r vars body d = v"
  unfolding depResult_def by (rule the_equality) (auto dest: depValue_det)

text \<open>\<^verbatim>\<open>Resolve\<close> returns results of dependencies and keeps the cache sound.\<close>

lemma slotValue_sound:
  assumes rs: "resolverSound lib dr r vars body rslv"
    and snd: "cacheSound lib dr r vars body st"
    and run: "slotValue rslv lib r vars body ex st = Some (Ok v, st')"
  shows "cacheSound lib dr r vars body st'
         \<and> pureSlot (depResult lib dr r vars body) lib r vars body ex = Ok v
         \<and> (\<forall>d \<in> depNames [(i, ex)]. \<exists>dv. depValue lib dr r vars body d dv)"
proof (cases "\<exists>d path ft. ex = DependencyExtractor d path ft")
  case True
  then obtain d path ft where ex: "ex = DependencyExtractor d path ft" by blast
  from run ex obtain dv where r0: "rslv d st = Some (Ok dv, st')"
    and v: "(if length path > 1 then extractNestedField lib dv (tl path) else Ok dv) = Ok v"
    by (auto split: option.splits result.splits prod.splits)
  from rs snd r0 have dv: "depValue lib dr r vars body d dv" and s': "cacheSound lib dr r vars body st'"
    unfolding resolverSound_def by blast+
  from dv have "depResult lib dr r vars body d = dv" by (rule depResult_eq)
  with v dv s' ex show ?thesis by auto
next
  case False
  then have "st' = st" "pureSlot (depResult lib dr r vars body) lib r vars body ex = Ok v"
    using run by (cases ex; simp)+
  moreover from False have "depNames [(i, ex)] = {}" by (auto simp: depNames_def)
  ultimately show ?thesis using snd by simp
qed

lemma bindFields_sound:
  assumes rs: "resolverSound lib dr r vars body rslv"
    and snd: "cacheSound lib dr r vars body st"
    and run: "bindFields setField (slotValue rslv lib r vars body) slots rv st = Some (Ok rv', st')"
  shows "cacheSound lib dr r vars body st'
         \<and> pureFields setField (pureSlot (depResult lib dr r vars body) lib r vars body) slots rv
             = Ok rv'
         \<and> (\<forall>d \<in> depNames slots. \<exists>dv. depValue lib dr r vars body d dv)"
  using snd run
proof (induction slots arbitrary: rv st)
  case Nil
  then show ?case by simp
next
  case (Cons slot slots)
  obtain i ex where slot: "slot = (i, ex)" by (cases slot)
  from Cons.prems(2) slot obtain v st1 rv1 where
    sv: "slotValue rslv lib r vars body ex st = Some (Ok v, st1)"
    and sf: "setField rv i v = Ok rv1"
    and rest: "bindFields setField (slotValue rslv lib r vars body) slots rv1 st1 = Some (Ok rv', st')"
    by (auto split: option.splits result.splits prod.splits)
  from slotValue_sound[OF rs Cons.prems(1) sv, of i]
  have s1: "cacheSound lib dr r vars body st1"
    and p1: "pureSlot (depResult lib dr r vars body) lib r vars body ex = Ok v"
    and d1: "\<forall>d \<in> depNames [(i, ex)]. \<exists>dv. depValue lib dr r vars body d dv"
    by simp_all
  from Cons.IH[OF s1 rest]
  have s': "cacheSound lib dr r vars body st'"
    and p': "pureFields setField (pureSlot (depResult lib dr r vars body) lib r vars body) slots rv1
             = Ok rv'"
    and d': "\<forall>d \<in> depNames slots. \<exists>dv. depValue lib dr r vars body d dv"
    by simp_all
  have "\<forall>d \<in> depNames (slot # slots). \<exists>dv. depValue lib dr r vars body d dv"
    using d1 d' slot depNames_Cons[of slot slots] by auto
  with s' p' p1 sf slot show ?case by simp
qed

lemma cacheSound_update:
  "cacheSound lib dr r vars body st \<Longrightarrow> depValue lib dr r vars body n v
     \<Longrightarrow> resolvedValues st' = (resolvedValues st)(n \<mapsto> v) \<Longrightarrow> cacheSound lib dr r vars body st'"
  by (simp add: cacheSound_def)

lemma Resolve_sound: "resolverSound lib dr r vars body (Resolve k lib dr r vars body)"
proof (induction k)
  case 0
  then show ?case by (simp add: resolverSound_def)
next
  case (Suc k)
  show ?case
    unfolding resolverSound_def
  proof (intro allI impI, elim conjE)
    fix n st v st'
    assume snd: "cacheSound lib dr r vars body st"
      and run: "Resolve (Suc k) lib dr r vars body n st = Some (Ok v, st')"
    from run show "depValue lib dr r vars body n v \<and> cacheSound lib dr r vars body st'"
    proof (cases rule: Resolve_Suc_cases)
      case (cached v')
      with snd show ?thesis by (simp add: cacheSound_def)
    next
      case (stored dep rv st1 v')
      from bindFields_sound[OF Suc snd stored(3)[unfolded resolveFields_bindFields]]
      have s1: "cacheSound lib dr r vars body st1"
        and p: "pureFields (setFieldResolve lib (reqType dep))
                  (pureSlot (depResult lib dr r vars body) lib r vars body) (extractors dep)
                  (newStruct (reqType dep)) = Ok rv"
        and d: "\<forall>d \<in> depNames (extractors dep). \<exists>dv. depValue lib dr r vars body d dv"
        by simp_all
      have "\<forall>d \<in> depNames (extractors dep).
              depValue lib dr r vars body d (depResult lib dr r vars body d)"
        using d depResult_eq by fastforce
      from depValue.intros[OF stored(2) this p stored(4,5)]
      have dv: "depValue lib dr r vars body n v" using stored(6) by simp
      moreover have "cacheSound lib dr r vars body st'"
        using s1 dv by (rule cacheSound_update) (use stored(6,7) in simp)
      ultimately show ?thesis by simp
    next
      case (called dep rv st1)
      from called(6) show ?thesis by blast
    qed simp_all
  qed
qed

text \<open>A resolution that returns within a depth returns the same within any greater depth.\<close>

lemma slotValue_mono:
  assumes "\<And>d st x. rslv d st = Some x \<Longrightarrow> rslv' d st = Some x"
    and "slotValue rslv lib r vars body ex st = Some y"
  shows "slotValue rslv' lib r vars body ex st = Some y"
proof (cases "\<exists>d path ft. ex = DependencyExtractor d path ft")
  case True
  then obtain d path ft where ex: "ex = DependencyExtractor d path ft" by blast
  from assms(2) ex obtain x where x: "rslv d st = Some x" by (auto split: option.splits)
  from assms(1)[OF x] x assms(2) ex show ?thesis by simp
next
  case False
  then show ?thesis using assms(2) by (cases ex) auto
qed

lemma bindFields_mono:
  assumes "\<And>d st x. rslv d st = Some x \<Longrightarrow> rslv' d st = Some x"
    and "bindFields setField (slotValue rslv lib r vars body) slots rv st = Some y"
  shows "bindFields setField (slotValue rslv' lib r vars body) slots rv st = Some y"
  using assms(2)
proof (induction slots arbitrary: rv st)
  case Nil
  then show ?case by simp
next
  case (Cons slot slots)
  obtain i ex where slot: "slot = (i, ex)" by (cases slot)
  from Cons.prems slot obtain x where x: "slotValue rslv lib r vars body ex st = Some x"
    by (auto split: option.splits)
  from slotValue_mono[OF assms(1) x] have x': "slotValue rslv' lib r vars body ex st = Some x" .
  obtain res1 st1 where xx: "x = (res1, st1)" by (cases x)
  show ?case
  proof (cases res1)
    case (Ok v)
    show ?thesis
    proof (cases "setField rv i v")
      case (Ok rv1)
      with \<open>res1 = Ok v\<close> Cons.prems slot x xx
      have "bindFields setField (slotValue rslv lib r vars body) slots rv1 st1 = Some y" by simp
      from Cons.IH[OF this] Ok \<open>res1 = Ok v\<close> slot x' xx show ?thesis by simp
    next
      case (Err e)
      with \<open>res1 = Ok v\<close> Cons.prems slot x x' xx show ?thesis by simp
    next
      case (Panic m)
      with \<open>res1 = Ok v\<close> Cons.prems slot x x' xx show ?thesis by simp
    qed
  next
    case (Err e)
    with Cons.prems slot x x' xx show ?thesis by simp
  next
    case (Panic m)
    with Cons.prems slot x x' xx show ?thesis by simp
  qed
qed

lemma Resolve_Suc_mono:
  "Resolve k lib dr r vars body n st = Some x \<Longrightarrow> Resolve (Suc k) lib dr r vars body n st = Some x"
proof (induction k arbitrary: n st x)
  case 0
  then show ?case by simp
next
  case (Suc k)
  show ?case
  proof (cases "resolvedValues st n")
    case (Some v)
    with Suc.prems show ?thesis by simp
  next
    case None
    note unc = this
    show ?thesis
    proof (cases "dependencies dr n")
      case None
      with unc Suc.prems show ?thesis by simp
    next
      case (Some dep)
      from Suc.prems unc Some obtain y where
        y: "resolveFields (Resolve k lib dr r vars body) lib r vars body (reqType dep)
              (extractors dep) (newStruct (reqType dep)) st = Some y"
        by (auto split: option.splits)
      have "resolveFields (Resolve (Suc k) lib dr r vars body) lib r vars body (reqType dep)
              (extractors dep) (newStruct (reqType dep)) st = Some y"
        using bindFields_mono[OF Suc.IH y[unfolded resolveFields_bindFields]]
        unfolding resolveFields_bindFields .
      with y Suc.prems unc Some show ?thesis
        unfolding Resolve.simps(2)[of "Suc k"] Resolve.simps(2)[of k] by simp
    qed
  qed
qed

lemma Resolve_mono:
  "k \<le> k' \<Longrightarrow> Resolve k lib dr r vars body n st = Some x
     \<Longrightarrow> Resolve k' lib dr r vars body n st = Some x"
proof (induction rule: dec_induct)
  case base
  then show ?case .
next
  case (step m)
  show ?case by (intro Resolve_Suc_mono step.IH step.prems)
qed

text \<open>A dependency that has a result is resolved to it from every sound cache.\<close>

lemma bindFields_complete:
  assumes deps: "\<forall>d \<in> depNames slots. \<forall>st. cacheSound lib dr r vars body st \<longrightarrow>
                   (\<exists>k st'. Resolve k lib dr r vars body d st = Some (Ok (f d), st'))"
    and snd: "cacheSound lib dr r vars body st"
    and run: "pureFields setField (pureSlot f lib r vars body) slots rv = Ok rv'"
  shows "\<exists>k st'. bindFields setField (slotValue (Resolve k lib dr r vars body) lib r vars body)
                   slots rv st = Some (Ok rv', st')
                  \<and> cacheSound lib dr r vars body st'"
  using deps snd run
proof (induction slots arbitrary: rv st)
  case Nil
  then show ?case by simp
next
  case (Cons slot slots)
  obtain i ex where slot: "slot = (i, ex)" by (cases slot)
  from Cons.prems(3) slot obtain v rv1 where
    pv: "pureSlot f lib r vars body ex = Ok v"
    and sf: "setField rv i v = Ok rv1"
    and rest: "pureFields setField (pureSlot f lib r vars body) slots rv1 = Ok rv'"
    by (auto split: result.splits)
  have dn: "depNames (slot # slots) = depNames [(i, ex)] \<union> depNames slots"
    using depNames_Cons[of slot slots] slot by simp
  have "\<exists>k1 st1. slotValue (Resolve k1 lib dr r vars body) lib r vars body ex st = Some (Ok v, st1)
                  \<and> cacheSound lib dr r vars body st1"
  proof (cases "\<exists>d path ft. ex = DependencyExtractor d path ft")
    case True
    then obtain d path ft where ex: "ex = DependencyExtractor d path ft" by blast
    then have "d \<in> depNames (slot # slots)" unfolding dn by simp
    with Cons.prems(1,2) obtain k1 st1 where
      r1: "Resolve k1 lib dr r vars body d st = Some (Ok (f d), st1)" by blast
    from Resolve_sound[of lib dr r vars body k1] Cons.prems(2) r1
    have "cacheSound lib dr r vars body st1" unfolding resolverSound_def by blast
    moreover have "slotValue (Resolve k1 lib dr r vars body) lib r vars body ex st = Some (Ok v, st1)"
      using r1 pv ex by simp
    ultimately show ?thesis by blast
  next
    case False
    then have "slotValue (Resolve 0 lib dr r vars body) lib r vars body ex st = Some (Ok v, st)"
      using pv by (cases ex) auto
    with Cons.prems(2) show ?thesis by blast
  qed
  then obtain k1 st1 where
    sv: "slotValue (Resolve k1 lib dr r vars body) lib r vars body ex st = Some (Ok v, st1)"
    and s1: "cacheSound lib dr r vars body st1" by blast
  have deps': "\<forall>d \<in> depNames slots. \<forall>st. cacheSound lib dr r vars body st \<longrightarrow>
                   (\<exists>k st'. Resolve k lib dr r vars body d st = Some (Ok (f d), st'))"
    using Cons.prems(1) unfolding dn by blast
  from Cons.IH[OF deps' s1 rest] obtain k2 st' where
    tl: "bindFields setField (slotValue (Resolve k2 lib dr r vars body) lib r vars body)
           slots rv1 st1 = Some (Ok rv', st')"
    and s': "cacheSound lib dr r vars body st'" by blast
  let ?k = "max k1 k2"
  have m1: "\<And>d st x. Resolve k1 lib dr r vars body d st = Some x
              \<Longrightarrow> Resolve ?k lib dr r vars body d st = Some x"
    using Resolve_mono[of k1 ?k] by simp
  have m2: "\<And>d st x. Resolve k2 lib dr r vars body d st = Some x
              \<Longrightarrow> Resolve ?k lib dr r vars body d st = Some x"
    using Resolve_mono[of k2 ?k] by simp
  from slotValue_mono[OF m1 sv]
  have sv': "slotValue (Resolve ?k lib dr r vars body) lib r vars body ex st = Some (Ok v, st1)" .
  from bindFields_mono[OF m2 tl]
  have tl': "bindFields setField (slotValue (Resolve ?k lib dr r vars body) lib r vars body)
           slots rv1 st1 = Some (Ok rv', st')" .
  have "bindFields setField (slotValue (Resolve ?k lib dr r vars body) lib r vars body)
          (slot # slots) rv st = Some (Ok rv', st')"
    using slot sv' sf tl' by simp
  with s' show ?case by blast
qed

lemma Resolve_complete:
  "depValue lib dr r vars body n v \<Longrightarrow> cacheSound lib dr r vars body st
     \<Longrightarrow> \<exists>k st'. Resolve k lib dr r vars body n st = Some (Ok v, st')"
proof (induction arbitrary: st rule: depValue.induct)
  case (1 n dep f rv v)
  show ?case
  proof (cases "resolvedValues st n")
    case (Some v')
    with "1.prems" have "depValue lib dr r vars body n v'" by (simp add: cacheSound_def)
    moreover have "depValue lib dr r vars body n v"
      using "1.hyps" "1.IH" depValue.intros[of dr n dep lib r vars body f rv v] by blast
    ultimately have "v' = v" by (rule depValue_det)
    with Some have "Resolve (Suc 0) lib dr r vars body n st = Some (Ok v, st)" by simp
    then show ?thesis by blast
  next
    case None
    have deps: "\<forall>d \<in> depNames (extractors dep). \<forall>st. cacheSound lib dr r vars body st \<longrightarrow>
                   (\<exists>k st'. Resolve k lib dr r vars body d st = Some (Ok (f d), st'))"
      using "1.IH" by blast
    from bindFields_complete[OF deps "1.prems"
           \<open>pureFields (setFieldResolve lib (reqType dep)) (pureSlot f lib r vars body)
              (extractors dep) (newStruct (reqType dep)) = Ok rv\<close>]
    obtain k st1 where
      loop: "resolveFields (Resolve k lib dr r vars body) lib r vars body (reqType dep)
               (extractors dep) (newStruct (reqType dep)) st = Some (Ok rv, st1)"
      unfolding resolveFields_bindFields by blast
    have "\<exists>st'. Resolve (Suc k) lib dr r vars body n st = Some (Ok v, st')"
      using None \<open>dependencies dr n = Some dep\<close> loop
        \<open>validateStruct lib (reqType dep) rv = None\<close> \<open>handlerFunc dep rv = Ok v\<close>
      by (simp add: Let_def)
    then show ?thesis by blast
  qed
qed

text \<open>Reordering the slots of the registry and of the handler.\<close>

lemma depNames_set: "set slots' = set slots \<Longrightarrow> depNames slots' = depNames slots"
  by (simp add: depNames_def)

lemma sameSlots_refl: "distinct (map fst xs) \<Longrightarrow> sameSlots xs xs"
  by (simp add: sameSlots_def)

lemma sameSlots_rev: "distinct (map fst xs) \<Longrightarrow> sameSlots xs (rev xs)"
  by (simp add: sameSlots_def rev_map[symmetric])

lemma reorderedD:
  assumes "reordered dr dr'" and "dependencies dr n = Some dep"
  obtains dep' where "dependencies dr' n = Some dep'" "handlerFunc dep' = handlerFunc dep"
    "reqType dep' = reqType dep" "sameSlots (extractors dep) (extractors dep')"
proof -
  from assms(1) have "case dependencies dr n of
            None \<Rightarrow> dependencies dr' n = None
          | Some dep \<Rightarrow>
              (case dependencies dr' n of
                 None \<Rightarrow> False
               | Some dep' \<Rightarrow>
                   handlerFunc dep' = handlerFunc dep \<and> reqType dep' = reqType dep
                   \<and> sameSlots (extractors dep) (extractors dep'))"
    unfolding reordered_def by (rule spec)
  with assms(2) that show thesis
    by (cases "dependencies dr' n") simp_all
qed

lemma depValue_reordered:
  assumes "reordered dr dr'"
  shows "depValue lib dr r vars body n v \<Longrightarrow> depValue lib dr' r vars body n v"
proof (induction rule: depValue.induct)
  case (1 n dep f rv v)
  from assms \<open>dependencies dr n = Some dep\<close> obtain dep' where
    dep': "dependencies dr' n = Some dep'" "handlerFunc dep' = handlerFunc dep"
      "reqType dep' = reqType dep" "sameSlots (extractors dep) (extractors dep')"
    by (rule reorderedD)
  from dep'(4) have ss: "distinct (map fst (extractors dep))" "distinct (map fst (extractors dep'))"
    "set (extractors dep') = set (extractors dep)"
    by (simp_all add: sameSlots_def)
  from ss(3) have dn: "depNames (extractors dep') = depNames (extractors dep)"
    by (rule depNames_set)
  have sub: "\<forall>d \<in> depNames (extractors dep'). depValue lib dr' r vars body d (f d)"
    using "1.IH" dn by blast
  have "pureFields (applyDecision (decideResolve lib (reqType dep))) (pureSlot f lib r vars body)
               (extractors dep') (newStruct (reqType dep)) = Ok rv"
    using ss \<open>pureFields (setFieldResolve lib (reqType dep)) (pureSlot f lib r vars body)
              (extractors dep) (newStruct (reqType dep)) = Ok rv\<close>[unfolded setFieldResolve_decide]
    by (rule pureFields_order)
  then have run: "pureFields (setFieldResolve lib (reqType dep')) (pureSlot f lib r vars body)
               (extractors dep') (newStruct (reqType dep')) = Ok rv"
    unfolding setFieldResolve_decide dep'(3) .
  have "validateStruct lib (reqType dep') rv = None" "handlerFunc dep' rv = Ok v"
    using \<open>validateStruct lib (reqType dep) rv = None\<close> \<open>handlerFunc dep rv = Ok v\<close> dep'(2,3)
    by simp_all
  with dep'(1) sub run show ?case
    by (rule depValue.intros)
qed

lemma cacheSound_newResolved: "cacheSound lib dr r vars body newResolved"
  by (simp add: cacheSound_def newResolved_def)

lemma executeFields_order:
  assumes ro: "reordered dr dr'" and ss: "sameSlots slots slots'"
    and run: "executeFields (Resolve k lib dr r vars body) lib r vars body t slots rv newResolved
                = Some (Ok rv', st)"
  shows "\<exists>k' st'. executeFields (Resolve k' lib dr' r vars body) lib r vars body t slots' rv
                     newResolved = Some (Ok rv', st')"
proof -
  let ?f = "depResult lib dr r vars body"
  from bindFields_sound[OF Resolve_sound cacheSound_newResolved run[unfolded executeFields_bindFields]]
  have p: "pureFields (setFieldExecute lib t) (pureSlot ?f lib r vars body) slots rv = Ok rv'"
    and d: "\<forall>d \<in> depNames slots. \<exists>dv. depValue lib dr r vars body d dv"
    by simp_all
  from ss have ss': "distinct (map fst slots)" "distinct (map fst slots')" "set slots' = set slots"
    by (simp_all add: sameSlots_def)
  have p': "pureFields (setFieldExecute lib t) (pureSlot ?f lib r vars body) slots' rv = Ok rv'"
    using ss' p unfolding setFieldExecute_decide by (rule pureFields_order)
  from ss'(3) have dn: "depNames slots' = depNames slots"
    by (rule depNames_set)
  have deps: "\<forall>d \<in> depNames slots'. \<forall>st. cacheSound lib dr' r vars body st \<longrightarrow>
                   (\<exists>k st'. Resolve k lib dr' r vars body d st = Some (Ok (?f d), st'))"
  proof (intro ballI allI impI)
    fix d st
    assume "d \<in> depNames slots'" and s: "cacheSound lib dr' r vars body st"
    with d dn obtain dv where dv: "depValue lib dr r vars body d dv" by blast
    then have "?f d = dv" by (rule depResult_eq)
    with dv have "depValue lib dr' r vars body d (?f d)"
      using depValue_reordered[OF ro] by blast
    from Resolve_complete[OF this s]
    show "\<exists>k st'. Resolve k lib dr' r vars body d st = Some (Ok (?f d), st')" .
  qed
  from bindFields_complete[OF deps cacheSound_newResolved p']
  show ?thesis unfolding executeFields_bindFields by blast
qed

lemma Execute_body:
  assumes "\<forall>err. (if hasJSONBody ch then Body r else None) \<noteq> Some (Inl err)"
  shows "Execute k lib ch r vars dr =
     (case executeFields (Resolve k lib dr r vars (requestBody ch r)) lib r vars
             (requestBody ch r) (reqType ch) (extractors ch) (newStruct (reqType ch)) newResolved of
        None \<Rightarrow> None
      | Some (Err err, st) \<Rightarrow> Some (ErrorHandled err, st)
      | Some (Panic m, st) \<Rightarrow> Some (Panicked m, st)
      | Some (Ok rv, st) \<Rightarrow>
          (case validateStruct lib (reqType ch) rv of
             Some err \<Rightarrow> Some (ErrorHandled err, st)
           | None \<Rightarrow>
               (case handlerFunc ch rv of
                  Err err \<Rightarrow> Some (ErrorHandled err, st)
                | Panic m \<Rightarrow> Some (Panicked m, st)
                | Ok v \<Rightarrow> Some (Responded v, st))))"
proof (cases "if hasJSONBody ch then Body r else None")
  case None
  then show ?thesis
    by (simp add: Execute_def requestBody_def newResolved_def)
next
  case (Some b)
  with assms obtain bytes where "b = Inr bytes" by (cases b) auto
  with Some show ?thesis
    by (simp add: Execute_def requestBody_def newResolved_def)
qed

lemma Execute_bodyfail:
  assumes "(if hasJSONBody ch then Body r else None) = Some (Inl err)"
  shows "Execute k lib ch r vars dr
           = Some (ErrorHandled (WrapError ''failed to read request body: '' err), newResolved)"
  using assms by (simp add: Execute_def newResolved_def)

text \<open>\<^verbatim>\<open>compileStructExtractors\<close> gives every index at most one extractor.\<close>

lemma compileFields_indices:
  "(j, e) \<in> set (fst (compileFields i fs)) \<Longrightarrow> i \<le> j"
proof (induction fs arbitrary: i)
  case Nil
  then show ?case by simp
next
  case (Cons f fs)
  obtain exs vs where c: "compileFields (Suc i) fs = (exs, vs)"
    by (cases "compileFields (Suc i) fs")
  from Cons.prems c have "j = i \<or> (j, e) \<in> set exs"
    by (auto split: if_splits option.splits)
  moreover have "Suc i \<le> j" if "(j, e) \<in> set exs"
    using Cons.IH[of "Suc i"] that c by simp
  ultimately show ?case by auto
qed

lemma compileFields_distinct: "distinct (map fst (fst (compileFields i fs)))"
proof (induction fs arbitrary: i)
  case Nil
  then show ?case by simp
next
  case (Cons f fs)
  obtain exs vs where c: "compileFields (Suc i) fs = (exs, vs)"
    by (cases "compileFields (Suc i) fs")
  have "i \<notin> fst ` set exs"
  proof
    assume "i \<in> fst ` set exs"
    then obtain e where "(i, e) \<in> set exs" by auto
    with compileFields_indices[of i e "Suc i" fs] c show False by simp
  qed
  moreover have "distinct (map fst exs)" using Cons[of "Suc i"] c by simp
  ultimately show ?case using c
    by (auto split: if_splits option.splits)
qed

lemma compileStructExtractors_distinct:
  "distinct (map fst (fst (compileStructExtractors t)))"
  by (simp add: compileStructExtractors_def compileFields_distinct)

lemma compile_twoPaths:
  "compileStructExtractors (reqType twoPaths) = (extractors twoPaths, validators twoPaths)"
  by (simp add: compileStructExtractors_def twoPaths_def fieldExtractor_def TagGet_def)

lemma reordered_refl:
  "\<forall>n dep. dependencies dr n = Some dep \<longrightarrow> distinct (map fst (extractors dep))
     \<Longrightarrow> reordered dr dr"
  by (auto simp: reordered_def sameSlots_def split: option.splits)

lemma reordered_twoDependencies: "reordered twoDependencies twoDependencies"
  by (rule reordered_refl) (auto simp: twoDependencies_def depA_def depB_def split: if_splits)

lemma executeFields_xy:
  "executeFields (Resolve (Suc (Suc fuel)) plainLib twoDependencies emptyRequest noVars [])
     plainLib emptyRequest noVars [] (reqType xyHandler) (extractors xyHandler)
     (newStruct (reqType xyHandler)) newResolved
   = Some (Ok [VString ''a'', VString ''b''], resolvedAB)"
  unfolding xyHandler_def
  by (simp add: resolve_A resolve_B newStruct_def setFieldExecute_def plainLib_simps
        del: Resolve.simps)

text \<open>
  C4, as the code has it. The extractors of a plan are a Go map, and the loops visit its
  entries in an order that is not fixed. For two orders of the slots of the handler, and
  of the slots of every registered dependency: when the binding loop of \<^verbatim>\<open>Execute\<close>
  binds every slot in one order, it binds every slot in the other order (given enough
  depth) and yields the same request struct; and when \<^verbatim>\<open>Execute\<close> responds with a
  value in one order, it responds with the same value in the other.
\<close>

theorem binding_independent_of_order:
  assumes "reordered dr dr'" and "sameSlots slots slots'"
  shows "(executeFields (Resolve k lib dr r vars body) lib r vars body t slots rv newResolved
            = Some (Ok rv', st)
          \<longrightarrow> (\<exists>k' st'. executeFields (Resolve k' lib dr' r vars body) lib r vars body t slots' rv
                         newResolved = Some (Ok rv', st')))
       \<and> (extractors ch = slots \<and> Execute k lib ch r vars dr = Some (Responded v, st)
          \<longrightarrow> (\<exists>k' st'. Execute k' lib (ch\<lparr>extractors := slots'\<rparr>) r vars dr'
                         = Some (Responded v, st')))"
proof (intro conjI impI)
  assume "executeFields (Resolve k lib dr r vars body) lib r vars body t slots rv newResolved
            = Some (Ok rv', st)"
  with assms show "\<exists>k' st'. executeFields (Resolve k' lib dr' r vars body) lib r vars body t slots' rv
                         newResolved = Some (Ok rv', st')"
    by (rule executeFields_order)
next
  assume a: "extractors ch = slots \<and> Execute k lib ch r vars dr = Some (Responded v, st)"
  let ?ch' = "ch\<lparr>extractors := slots'\<rparr>"
  have nb: "\<forall>err. (if hasJSONBody ch then Body r else None) \<noteq> Some (Inl err)"
  proof (intro allI notI)
    fix err assume "(if hasJSONBody ch then Body r else None) = Some (Inl err)"
    from Execute_bodyfail[OF this, of k lib vars dr] a show False by simp
  qed
  from a Execute_body[OF nb, of k lib vars dr] obtain rv where
    run: "executeFields (Resolve k lib dr r vars (requestBody ch r)) lib r vars
             (requestBody ch r) (reqType ch) slots (newStruct (reqType ch)) newResolved
            = Some (Ok rv, st)"
    and val: "validateStruct lib (reqType ch) rv = None" and h: "handlerFunc ch rv = Ok v"
    by (auto split: option.splits result.splits prod.splits)
  from executeFields_order[OF assms run] obtain k' st' where
    run': "executeFields (Resolve k' lib dr' r vars (requestBody ch r)) lib r vars
             (requestBody ch r) (reqType ch) slots' (newStruct (reqType ch)) newResolved
            = Some (Ok rv, st')" by blast
  have nb': "\<forall>err. (if hasJSONBody ?ch' then Body r else None) \<noteq> Some (Inl err)"
    using nb by simp
  have rb: "requestBody ?ch' r = requestBody ch r" by (simp add: requestBody_def)
  have "Execute k' lib ?ch' r vars dr' = Some (Responded v, st')"
    unfolding Execute_body[OF nb'] rb using run' val h by simp
  then show "\<exists>k' st'. Execute k' lib ?ch' r vars dr' = Some (Responded v, st')" by blast
qed

text \<open>
  C4, at the scenario with the dependencies \<open>A\<close> and \<open>B\<close>: with the two slots of the
  handler visited in reverse order, the same struct is bound and the same response given.
\<close>

theorem binding_independent_of_order_witness:
  "(\<exists>k' st'. executeFields (Resolve k' plainLib twoDependencies emptyRequest noVars []) plainLib
       emptyRequest noVars [] (reqType xyHandler) (rev (extractors xyHandler))
       (newStruct (reqType xyHandler)) newResolved
     = Some (Ok [VString ''a'', VString ''b''], st'))
   \<and> (\<exists>k' st'. Execute k' plainLib (xyHandler\<lparr>extractors := rev (extractors xyHandler)\<rparr>)
        emptyRequest noVars twoDependencies
      = Some (Responded (VSlice TString [VString ''a'', VString ''b'']), st'))"
proof -
  have ss: "sameSlots (extractors xyHandler) (rev (extractors xyHandler))"
    by (rule sameSlots_rev) (simp add: xyHandler_def)
  from binding_independent_of_order
         [OF reordered_twoDependencies ss,
          where k = "Suc (Suc 0)" and lib = plainLib and r = emptyRequest and vars = noVars
            and body = "[]" and t = "reqType xyHandler" and rv = "newStruct (reqType xyHandler)"
            and rv' = "[VString ''a'', VString ''b'']" and st = resolvedAB and ch = xyHandler
            and v = "VSlice TString [VString ''a'', VString ''b'']"]
  show ?thesis
    using executeFields_xy[of 0] execute_xy[of 0] by simp
qed

text \<open>
  C4, as the claim states it, fails: the same plan and the same request, with the two
  slots visited in the two possible orders, give two different results, since the loop
  stops at the first slot that fails.
\<close>

theorem binding_order_changes_error:
  "Execute 0 plainLib twoPaths emptyRequest noVars noDependencies
     = Some (ErrorHandled (Errorf ''path parameter id not found''), newResolved)
   \<and> Execute 0 plainLib (twoPaths\<lparr>extractors := rev (extractors twoPaths)\<rparr>) emptyRequest noVars
       noDependencies
     = Some (ErrorHandled (Errorf ''path parameter slug not found''), newResolved)"
  by (simp add: Execute_def twoPaths_def noVars_def newResolved_def)

end
